theory Spec2Isabelle
  imports Main "HOL-Library.Sublist"
begin

section \<open>Python strings\<close>

text \<open>
  A Python \<open>str\<close> is a sequence of Unicode code points; a code point is modelled as a
  natural number. \<open>py\<close> turns an ASCII literal into such a sequence.
\<close>

type_synonym pystr = "nat list"

definition py :: "string \<Rightarrow> pystr" where
  "py s = map of_char s"

abbreviation LF :: nat where "LF \<equiv> 10"
abbreviation CR :: nat where "CR \<equiv> 13"

text \<open>
  The line boundaries of \<open>str.splitlines\<close>: LF, VT, FF, CR, FS, GS, RS, NEL, LS, PS
  (and CR LF as one boundary).
\<close>

definition is_linebreak :: "nat \<Rightarrow> bool" where
  "is_linebreak c \<longleftrightarrow>
     c = 10 \<or> c = 11 \<or> c = 12 \<or> c = 13 \<or> c = 28 \<or> c = 29 \<or> c = 30 \<or>
     c = 133 \<or> c = 8232 \<or> c = 8233"

text \<open>The whitespace that \<open>str.strip\<close>, \<open>lstrip\<close> and \<open>rstrip\<close> remove when called
  without an argument.\<close>

definition isspace :: "nat \<Rightarrow> bool" where
  "isspace c \<longleftrightarrow>
     (9 \<le> c \<and> c \<le> 13) \<or> (28 \<le> c \<and> c \<le> 32) \<or> c = 133 \<or> c = 160 \<or> c = 5760 \<or>
     (8192 \<le> c \<and> c \<le> 8202) \<or> c = 8232 \<or> c = 8233 \<or> c = 8239 \<or> c = 8287 \<or>
     c = 12288"

text \<open>
  \<open>str.splitlines()\<close>: the scan of CPython, with the line read so far as an accumulator.
  A final line without a terminator is kept when it is not empty; no empty line follows
  a final terminator.
\<close>

fun splitlines_from :: "pystr \<Rightarrow> pystr \<Rightarrow> pystr list" where
  "splitlines_from cur [] = (if cur = [] then [] else [cur])"
| "splitlines_from cur [c] = (if is_linebreak c then [cur] else [cur @ [c]])"
| "splitlines_from cur (c # d # cs) =
     (if c = CR \<and> d = LF then cur # splitlines_from [] cs
      else if is_linebreak c then cur # splitlines_from [] (d # cs)
      else splitlines_from (cur @ [c]) (d # cs))"

definition splitlines :: "pystr \<Rightarrow> pystr list" where
  "splitlines s = splitlines_from [] s"

text \<open>\<open>sep.join(xs)\<close>.\<close>

fun join :: "pystr \<Rightarrow> pystr list \<Rightarrow> pystr" where
  "join sep [] = []"
| "join sep [x] = x"
| "join sep (x # y # ys) = x @ sep @ join sep (y # ys)"

definition lstrip :: "pystr \<Rightarrow> pystr" where
  "lstrip s = dropWhile isspace s"

definition rstrip :: "pystr \<Rightarrow> pystr" where
  "rstrip s = rev (dropWhile isspace (rev s))"

definition strip :: "pystr \<Rightarrow> pystr" where
  "strip s = lstrip (rstrip s)"

text \<open>
  \<open>str.lower()\<close> on the ASCII letters. The only code points whose lower case is \<open>y\<close>
  are \<open>Y\<close> and \<open>y\<close>, so the comparison of the prompt's answer with \<open>"y"\<close> is exact.
\<close>

definition lower :: "pystr \<Rightarrow> pystr" where
  "lower s = map (\<lambda>c. if 65 \<le> c \<and> c \<le> 90 then c + 32 else c) s"

text \<open>
  \<open>s.index(sub)\<close>: the position of the first occurrence, \<open>None\<close> where Python raises
  \<open>ValueError\<close>; \<open>sub in s\<close> is \<open>contains s sub\<close>.
\<close>

fun str_index :: "pystr \<Rightarrow> pystr \<Rightarrow> nat option" where
  "str_index [] sub = (if sub = [] then Some 0 else None)"
| "str_index (c # cs) sub =
     (if prefix sub (c # cs) then Some 0 else map_option Suc (str_index cs sub))"

definition contains :: "pystr \<Rightarrow> pystr \<Rightarrow> bool" where
  "contains s sub \<longleftrightarrow> str_index s sub \<noteq> None"

section \<open>The target file\<close>

text \<open>
  The target path holds no file (\<open>content = None\<close>) or a file with its decoded text;
  \<open>readable\<close> and \<open>writable\<close> say whether opening it for reading and for writing is
  permitted. \<open>Path.read_text\<close> opens the file in text mode with universal newlines:
  CR LF and a lone CR arrive as LF. \<open>Path.write_text\<close> opens the file for writing,
  which empties it, and writes the text encoded as UTF-8 (on POSIX, where LF is written
  as it is). Opening fails with \<open>PermissionError\<close> and leaves the file as it is; a
  text that holds a surrogate code point (a command line argument with a byte that is
  not UTF-8 arrives as one) cannot be encoded: the write raises \<open>UnicodeEncodeError\<close>
  and leaves the file empty.
\<close>

datatype exc = FileNotFoundError | PermissionError | EOFError | RegexError | UnicodeEncodeError

record fs =
  content :: "pystr option"
  readable :: bool
  writable :: bool

fun universal_newlines :: "pystr \<Rightarrow> pystr" where
  "universal_newlines [] = []"
| "universal_newlines [c] = [if c = CR then LF else c]"
| "universal_newlines (c # d # cs) =
     (if c = CR \<and> d = LF then LF # universal_newlines cs
      else if c = CR then LF # universal_newlines (d # cs)
      else c # universal_newlines (d # cs))"

definition path_exists :: "fs \<Rightarrow> bool" where
  "path_exists f \<longleftrightarrow> content f \<noteq> None"

definition read_text :: "fs \<Rightarrow> exc + pystr" where
  "read_text f =
     (case content f of
        None \<Rightarrow> Inl FileNotFoundError
      | Some c \<Rightarrow> if readable f then Inr (universal_newlines c) else Inl PermissionError)"

definition surrogate :: "nat \<Rightarrow> bool" where
  "surrogate c \<longleftrightarrow> 55296 \<le> c \<and> c \<le> 57343"

definition encodable :: "pystr \<Rightarrow> bool" where
  "encodable s \<longleftrightarrow> list_all (\<lambda>c. \<not> surrogate c) s"

text \<open>The exception of the write, if any, and the file afterwards.\<close>

definition write_text :: "fs \<Rightarrow> pystr \<Rightarrow> exc option \<times> fs" where
  "write_text f new =
     (if \<not> writable f then (Some PermissionError, f)
      else if encodable new then (None, f\<lparr>content := Some new\<rparr>)
      else (Some UnicodeEncodeError, f\<lparr>content := Some []\<rparr>))"

section \<open>Console output and process exit\<close>

datatype stream = Stdout | Stderr

text \<open>The messages of the program; each carries the path it prints. \<open>UnifiedDiff old new path\<close>
  is the text of \<open>difflib.unified_diff\<close>, \<open>Prompt\<close> the prompt of \<open>input\<close>. A message
  records the \<open>print\<close> call; the console is taken to accept every text (with an error
  handler that escapes what its encoding lacks), so that printing does not raise.\<close>

datatype msg =
    NoChangesNeeded pystr
  | UnifiedDiff pystr pystr pystr
  | Prompt
  | FileNotFound pystr
  | PermissionDenied pystr
  | LineAlreadyPresent pystr
  | BlockAlreadyCorrect pystr
  | NoExactMatch pystr
  | LineMatchedAlreadyCorrect pystr
  | NoRegexMatches pystr
  | RegexMatchNoChanges pystr
  | Updated pystr
  | UsageError
  | UnhandledError exc

text \<open>A run ends with \<open>sys.exit(code)\<close> or with an exception that leaves the function.\<close>

datatype ending = Exit nat | Raised exc

record run =
  printed :: "(stream \<times> msg) list"
  ending :: ending
  target :: fs
  wrote :: bool

abbreviation EXIT_OK :: nat where "EXIT_OK \<equiv> 0"
abbreviation EXIT_GENERIC_FAIL :: nat where "EXIT_GENERIC_FAIL \<equiv> 1"
abbreviation EXIT_PERMISSIONS :: nat where "EXIT_PERMISSIONS \<equiv> 2"
abbreviation EXIT_NO_MATCH :: nat where "EXIT_NO_MATCH \<equiv> 3"
abbreviation EXIT_NO_CHANGE_NEEDED :: nat where "EXIT_NO_CHANGE_NEEDED \<equiv> 4"
abbreviation EXIT_NOT_FOUND :: nat where "EXIT_NOT_FOUND \<equiv> 5"

text \<open>\<open>if not quiet: print(m, file=s)\<close>.\<close>

definition say :: "bool \<Rightarrow> stream \<Rightarrow> msg \<Rightarrow> (stream \<times> msg) list" where
  "say quiet s m = (if \<not> quiet then [(s, m)] else [])"

definition exit_ok_or_noop :: "bool \<Rightarrow> nat" where
  "exit_ok_or_noop idempotent_ok = (if idempotent_ok then EXIT_OK else EXIT_NO_CHANGE_NEEDED)"

text \<open>
  \<open>show_diff_and_confirm\<close>: what it prints, and its result: \<open>None\<close> for no change, the
  decision otherwise. \<open>resp\<close> is the line waiting on standard input (\<open>None\<close> at end of
  input, where \<open>input\<close> raises \<open>EOFError\<close>). The prompt is printed also in quiet mode.
\<close>

definition show_diff_and_confirm ::
  "pystr \<Rightarrow> pystr \<Rightarrow> pystr \<Rightarrow> bool \<Rightarrow> bool \<Rightarrow> pystr option \<Rightarrow>
     (stream \<times> msg) list \<times> (exc + bool option)" where
  "show_diff_and_confirm old new path force quiet resp =
     (if old = new then (say quiet Stdout (NoChangesNeeded path), Inr None)
      else
        let d = say quiet Stdout (UnifiedDiff old new path) in
        if force then (d, Inr (Some True))
        else
          (case resp of
             None \<Rightarrow> (d @ [(Stdout, Prompt)], Inl EOFError)
           | Some r \<Rightarrow> (d @ [(Stdout, Prompt)], Inr (Some (lower (strip r) = py ''y'')))))"

definition safe_read :: "pystr \<Rightarrow> bool \<Rightarrow> fs \<Rightarrow> run + pystr" where
  "safe_read path quiet f =
     (case read_text f of
        Inr s \<Rightarrow> Inr s
      | Inl FileNotFoundError \<Rightarrow>
          Inl \<lparr>printed = say quiet Stderr (FileNotFound path), ending = Exit EXIT_NOT_FOUND,
               target = f, wrote = False\<rparr>
      | Inl PermissionError \<Rightarrow>
          Inl \<lparr>printed = say quiet Stderr (PermissionDenied path), ending = Exit EXIT_PERMISSIONS,
               target = f, wrote = False\<rparr>
      | Inl e \<Rightarrow> Inl \<lparr>printed = [], ending = Raised e, target = f, wrote = False\<rparr>)"

text \<open>
  The end of each of the four operations, which the source repeats in each of them: ask
  \<open>show_diff_and_confirm\<close>, write when confirmed, exit. Of the exceptions of the write
  only \<open>PermissionError\<close> is caught; any other leaves the function.
\<close>

definition confirm_and_write ::
  "pystr \<Rightarrow> pystr \<Rightarrow> pystr \<Rightarrow> bool \<Rightarrow> bool \<Rightarrow> bool \<Rightarrow> pystr option \<Rightarrow> fs \<Rightarrow> run" where
  "confirm_and_write path old new force quiet idempotent_ok resp f =
     (case show_diff_and_confirm old new path force quiet resp of
        (out, Inl e) \<Rightarrow> \<lparr>printed = out, ending = Raised e, target = f, wrote = False\<rparr>
      | (out, Inr None) \<Rightarrow>
          \<lparr>printed = out, ending = Exit (exit_ok_or_noop idempotent_ok), target = f, wrote = False\<rparr>
      | (out, Inr (Some confirmed)) \<Rightarrow>
          if confirmed then
            (case write_text f new of
               (Some PermissionError, f') \<Rightarrow>
                 \<lparr>printed = out @ say quiet Stderr (PermissionDenied path),
                  ending = Exit EXIT_PERMISSIONS, target = f', wrote = False\<rparr>
             | (Some e, f') \<Rightarrow>
                 \<lparr>printed = out, ending = Raised e, target = f', wrote = False\<rparr>
             | (None, f') \<Rightarrow>
                 \<lparr>printed = out @ say quiet Stdout (Updated path), ending = Exit EXIT_OK,
                  target = f', wrote = True\<rparr>)
          else
            \<lparr>printed = out, ending = Exit (exit_ok_or_noop idempotent_ok), target = f,
             wrote = False\<rparr>)"

section \<open>The four operations\<close>

subsection \<open>\<open>ensure_line\<close>\<close>

definition ensure_line_new :: "pystr \<Rightarrow> pystr \<Rightarrow> pystr" where
  "ensure_line_new old line = join [LF] (splitlines old @ [line]) @ [LF]"

definition ensure_line ::
  "pystr \<Rightarrow> pystr \<Rightarrow> bool \<Rightarrow> bool \<Rightarrow> bool \<Rightarrow> pystr option \<Rightarrow> fs \<Rightarrow> run" where
  "ensure_line path line force quiet idempotent_ok resp f =
     (case (if path_exists f then safe_read path quiet f else Inr []) of
        Inl r \<Rightarrow> r
      | Inr old \<Rightarrow>
          if line \<in> set (splitlines old) then
            \<lparr>printed = say quiet Stdout (LineAlreadyPresent path),
             ending = Exit (exit_ok_or_noop idempotent_ok), target = f, wrote = False\<rparr>
          else
            confirm_and_write path old (ensure_line_new old line) force quiet idempotent_ok resp f)"

subsection \<open>\<open>ensure_block\<close>\<close>

definition canonical_block :: "pystr list \<Rightarrow> pystr \<Rightarrow> pystr \<Rightarrow> pystr" where
  "canonical_block block_lines marker_start marker_end =
     join [LF] ([marker_start] @ block_lines @ [marker_end])"

text \<open>The candidate content. \<open>the\<close> is applied to an index only where \<open>contains\<close> holds.\<close>

definition ensure_block_new :: "pystr \<Rightarrow> pystr list \<Rightarrow> pystr \<Rightarrow> pystr \<Rightarrow> pystr" where
  "ensure_block_new old block_lines marker_start marker_end =
     (let block = canonical_block block_lines marker_start marker_end in
      if contains old marker_start \<and> contains old marker_end then
        let start = the (str_index old marker_start);
            end' = the (str_index old marker_end) + length marker_end;
            before = rstrip (take start old);
            after = lstrip (drop end' old)
        in before @ [LF] @ block @ [LF] @ after
      else
        let prefix = rstrip old in
        if prefix \<noteq> [] then prefix @ [LF] @ block @ [LF] else block @ [LF])"

definition ensure_block ::
  "pystr \<Rightarrow> pystr list \<Rightarrow> pystr \<Rightarrow> pystr \<Rightarrow> bool \<Rightarrow> bool \<Rightarrow> bool \<Rightarrow> pystr option \<Rightarrow> fs \<Rightarrow> run"
  where
  "ensure_block path block_lines marker_start marker_end force quiet idempotent_ok resp f =
     (case (if path_exists f then safe_read path quiet f else Inr []) of
        Inl r \<Rightarrow> r
      | Inr old \<Rightarrow>
          let new = ensure_block_new old block_lines marker_start marker_end in
          if old = new then
            \<lparr>printed = say quiet Stdout (BlockAlreadyCorrect path),
             ending = Exit (exit_ok_or_noop idempotent_ok), target = f, wrote = False\<rparr>
          else confirm_and_write path old new force quiet idempotent_ok resp f)"

subsection \<open>\<open>replace_line\<close>\<close>

text \<open>The loop over the lines, on the triple \<open>(match_found, changed, new_lines)\<close>.\<close>

fun replace_line_loop ::
  "pystr \<Rightarrow> pystr \<Rightarrow> pystr list \<Rightarrow> bool \<times> bool \<times> pystr list \<Rightarrow> bool \<times> bool \<times> pystr list"
  where
  "replace_line_loop old_line new_line [] st = st"
| "replace_line_loop old_line new_line (l # ls) (match_found, changed, new_lines) =
     (if l = old_line then
        (if l \<noteq> new_line then
           replace_line_loop old_line new_line ls (True, True, new_lines @ [new_line])
         else replace_line_loop old_line new_line ls (True, changed, new_lines @ [l]))
      else replace_line_loop old_line new_line ls (match_found, changed, new_lines @ [l]))"

definition replace_line ::
  "pystr \<Rightarrow> pystr \<Rightarrow> pystr \<Rightarrow> bool \<Rightarrow> bool \<Rightarrow> bool \<Rightarrow> pystr option \<Rightarrow> fs \<Rightarrow> run" where
  "replace_line path old_line new_line force quiet idempotent_ok resp f =
     (case safe_read path quiet f of
        Inl r \<Rightarrow> r
      | Inr old \<Rightarrow>
          (case replace_line_loop old_line new_line (splitlines old) (False, False, []) of
             (match_found, changed, new_lines) \<Rightarrow>
               if \<not> match_found then
                 \<lparr>printed = say quiet Stdout (NoExactMatch path), ending = Exit EXIT_NO_MATCH,
                  target = f, wrote = False\<rparr>
               else if \<not> changed then
                 \<lparr>printed = say quiet Stdout (LineMatchedAlreadyCorrect path),
                  ending = Exit (exit_ok_or_noop idempotent_ok), target = f, wrote = False\<rparr>
               else
                 confirm_and_write path old (join [LF] new_lines @ [LF]) force quiet
                   idempotent_ok resp f))"

subsection \<open>\<open>replace_line_re\<close>\<close>

text \<open>
  The regular expression engine is a parameter: for the pattern and the replacement of
  the call, \<open>re_search l\<close> is whether \<open>re.search(pattern, l)\<close> finds a match and
  \<open>re_sub l\<close> is \<open>re.sub(pattern, replacement, l)\<close>; \<open>re_compiles\<close> is whether the
  pattern and the replacement template compile (where they do not, the first call raises
  \<open>re.error\<close>).
\<close>

record regex =
  re_compiles :: bool
  re_search :: "pystr \<Rightarrow> bool"
  re_sub :: "pystr \<Rightarrow> pystr"

fun replace_line_re_loop ::
  "regex \<Rightarrow> pystr list \<Rightarrow> bool \<times> bool \<times> pystr list \<Rightarrow> exc + bool \<times> bool \<times> pystr list"
  where
  "replace_line_re_loop r [] st = Inr st"
| "replace_line_re_loop r (l # ls) (match_found, changed, new_lines) =
     (if \<not> re_compiles r then Inl RegexError
      else
        let match_found' = (if re_search r l then True else match_found);
            new_l = re_sub r l;
            changed' = (if new_l \<noteq> l then True else changed)
        in replace_line_re_loop r ls (match_found', changed', new_lines @ [new_l]))"

definition replace_line_re ::
  "pystr \<Rightarrow> regex \<Rightarrow> bool \<Rightarrow> bool \<Rightarrow> bool \<Rightarrow> pystr option \<Rightarrow> fs \<Rightarrow> run" where
  "replace_line_re path r force quiet idempotent_ok resp f =
     (case safe_read path quiet f of
        Inl x \<Rightarrow> x
      | Inr old \<Rightarrow>
          (case replace_line_re_loop r (splitlines old) (False, False, []) of
             Inl e \<Rightarrow> \<lparr>printed = [], ending = Raised e, target = f, wrote = False\<rparr>
           | Inr (match_found, changed, new_lines) \<Rightarrow>
               if \<not> match_found then
                 \<lparr>printed = say quiet Stdout (NoRegexMatches path), ending = Exit EXIT_NO_MATCH,
                  target = f, wrote = False\<rparr>
               else if \<not> changed then
                 \<lparr>printed = say quiet Stdout (RegexMatchNoChanges path),
                  ending = Exit (exit_ok_or_noop idempotent_ok), target = f, wrote = False\<rparr>
               else
                 confirm_and_write path old (join [LF] new_lines @ [LF]) force quiet
                   idempotent_ok resp f))"

section \<open>\<open>main\<close>\<close>

text \<open>
  The parsed command line. An option that was not given is \<open>None\<close>; \<open>if args.line\<close>
  is false also for the empty string. \<open>-I\<close> sets \<open>arg_idempotent_fail\<close>, and every
  operation is called with \<open>idempotent_ok = not args.idempotent_fail\<close>. An exception
  that leaves an operation is reported as an unhandled error with exit code 1.
\<close>

record args =
  filepath :: pystr
  arg_line :: "pystr option"
  arg_block :: "pystr list option"
  arg_start :: "pystr option"
  arg_end :: "pystr option"
  arg_replace :: "(pystr \<times> pystr) option"
  arg_replace_re :: "regex option"
  arg_force :: bool
  arg_quiet :: bool
  arg_idempotent_fail :: bool

definition truthy :: "'a list option \<Rightarrow> bool" where
  "truthy x \<longleftrightarrow> (case x of None \<Rightarrow> False | Some v \<Rightarrow> v \<noteq> [])"

definition dispatch :: "args \<Rightarrow> pystr option \<Rightarrow> fs \<Rightarrow> run" where
  "dispatch a resp f =
     (if truthy (arg_line a) then
        ensure_line (filepath a) (the (arg_line a)) (arg_force a) (arg_quiet a) (\<not> arg_idempotent_fail a) resp f
      else if truthy (arg_block a) \<and> truthy (arg_start a) \<and> truthy (arg_end a) then
        ensure_block (filepath a) (the (arg_block a)) (the (arg_start a)) (the (arg_end a))
          (arg_force a) (arg_quiet a) (\<not> arg_idempotent_fail a) resp f
      else
        (case arg_replace a of
           Some (old_line, new_line) \<Rightarrow>
             replace_line (filepath a) old_line new_line (arg_force a) (arg_quiet a)
               (\<not> arg_idempotent_fail a) resp f
         | None \<Rightarrow>
             (case arg_replace_re a of
                Some r \<Rightarrow>
                  replace_line_re (filepath a) r (arg_force a) (arg_quiet a) (\<not> arg_idempotent_fail a) resp f
              | None \<Rightarrow>
                  \<lparr>printed = [(Stderr, UsageError)], ending = Exit EXIT_GENERIC_FAIL,
                   target = f, wrote = False\<rparr>)))"

definition main :: "args \<Rightarrow> pystr option \<Rightarrow> fs \<Rightarrow> run" where
  "main a resp f =
     (let r = dispatch a resp f in
      case ending r of
        Exit n \<Rightarrow> r
      | Raised e \<Rightarrow>
          r\<lparr>printed := printed r @ [(Stderr, UnhandledError e)], ending := Exit EXIT_GENERIC_FAIL\<rparr>)"

section \<open>Notions used in the statements\<close>

text \<open>What an operation that tolerates a missing file reads: the empty string when the
  file is absent, the text of the file (after newline translation) otherwise.\<close>

definition text_of :: "fs \<Rightarrow> pystr" where
  "text_of f = (case content f of None \<Rightarrow> [] | Some c \<Rightarrow> universal_newlines c)"

definition ends_with_newline :: "pystr \<Rightarrow> bool" where
  "ends_with_newline s \<longleftrightarrow> s \<noteq> [] \<and> last s = LF"

definition ends_with_one_newline :: "pystr \<Rightarrow> bool" where
  "ends_with_one_newline s \<longleftrightarrow> ends_with_newline s \<and> \<not> ends_with_newline (butlast s)"

text \<open>Files and command lines of the examples: a readable and writable file with a given
  text, no file, and the command line that gives only the path.\<close>

definition conf :: "string \<Rightarrow> fs" where
  "conf s = \<lparr>content = Some (py s), readable = True, writable = True\<rparr>"

definition absent :: fs where
  "absent = \<lparr>content = None, readable = True, writable = True\<rparr>"

definition cli :: "pystr \<Rightarrow> args" where
  "cli path = \<lparr>filepath = path, arg_line = None, arg_block = None, arg_start = None,
     arg_end = None, arg_replace = None, arg_replace_re = None, arg_force = False,
     arg_quiet = False, arg_idempotent_fail = False\<rparr>"

text \<open>The pattern \<open>a\<close> with the replacement \<open>a\<close>: it matches every line that holds
  an \<open>a\<close> and leaves every line as it is.\<close>

definition re_a_by_a :: regex where
  "re_a_by_a = \<lparr>re_compiles = True, re_search = (\<lambda>l. contains l (py ''a'')), re_sub = (\<lambda>l. l)\<rparr>"

text \<open>The pattern \<open>^c$\<close> with the replacement \<open>z\<close>.\<close>

definition re_c_by_z :: regex where
  "re_c_by_z = \<lparr>re_compiles = True, re_search = (\<lambda>l. l = py ''c''),
     re_sub = (\<lambda>l. if l = py ''c'' then py ''z'' else l)\<rparr>"

text \<open>A file whose three lines end with CR LF, with VT and with nothing.\<close>

definition mixed_terminators :: fs where
  "mixed_terminators = \<lparr>content = Some [97, CR, LF, 98, 11, 99], readable = True, writable = True\<rparr>"

section \<open>Auxiliary facts\<close>

lemmas run_defs = safe_read_def read_text_def write_text_def encodable_def surrogate_def
  path_exists_def say_def
  exit_ok_or_noop_def confirm_and_write_def show_diff_and_confirm_def

lemmas str_defs = py_def splitlines_def is_linebreak_def isspace_def lstrip_def rstrip_def
  strip_def lower_def contains_def

lemmas main_defs = main_def dispatch_def truthy_def cli_def conf_def absent_def

lemmas eval_defs = ensure_line_def ensure_line_new_def replace_line_def replace_line_re_def
  ensure_block_def ensure_block_new_def canonical_block_def

lemmas block_eval = ensure_block_new_def canonical_block_def contains_def lstrip_def rstrip_def
  isspace_def py_def Let_def

lemmas newline_eval = ends_with_one_newline_def ends_with_newline_def

subsection \<open>Lines\<close>

lemma join_snoc: "ls \<noteq> [] \<Longrightarrow> join sep ls @ sep = concat (map (\<lambda>l. l @ sep) ls)"
  by (induction sep ls rule: join.induct) simp_all


lemma splitlines_from_nobreak:
  "\<forall>c\<in>set cur. \<not> is_linebreak c \<Longrightarrow> l \<in> set (splitlines_from cur s) \<Longrightarrow> c \<in> set l \<Longrightarrow>
   \<not> is_linebreak c"
  by (induction cur s rule: splitlines_from.induct) (auto split: if_splits)

lemma splitlines_nobreak:
  "l \<in> set (splitlines s) \<Longrightarrow> c \<in> set l \<Longrightarrow> \<not> is_linebreak c"
  unfolding splitlines_def using splitlines_from_nobreak [of "[]" l s c] by simp

lemma universal_newlines_no_CR: "CR \<notin> set (universal_newlines s)"
  by (induction s rule: universal_newlines.induct) auto

lemma splitlines_from_length:
  "CR \<notin> set s \<Longrightarrow>
   length cur + length s \<le> sum_list (map (\<lambda>l. length l + 1) (splitlines_from cur s))"
  by (induction cur s rule: splitlines_from.induct) (auto split: if_splits)

lemma splitlines_length:
  "CR \<notin> set s \<Longrightarrow> length s \<le> sum_list (map (\<lambda>l. length l + 1) (splitlines s))"
  unfolding splitlines_def using splitlines_from_length [of s "[]"] by simp

subsection \<open>Reading and writing\<close>

lemma safe_read_Inr:
  "safe_read path quiet f = Inr old \<Longrightarrow> old = text_of f \<and> content f \<noteq> None \<and> readable f"
  by (auto simp: safe_read_def read_text_def text_of_def split: option.splits if_splits)

lemma text_of_no_CR: "CR \<notin> set (text_of f)"
  by (simp add: text_of_def universal_newlines_no_CR split: option.splits)

lemma read_or_empty_Inr:
  "(if path_exists f then safe_read path quiet f else Inr []) = Inr old \<Longrightarrow> old = text_of f"
  by (auto simp: path_exists_def text_of_def dest: safe_read_Inr split: if_splits)

lemma confirm_and_write_forced:
  "old \<noteq> new \<Longrightarrow> encodable new \<Longrightarrow> writable f \<Longrightarrow>
   confirm_and_write path old new True quiet idempotent_ok resp f =
     \<lparr>printed = say quiet Stdout (UnifiedDiff old new path) @ say quiet Stdout (Updated path),
      ending = Exit EXIT_OK, target = f\<lparr>content := Some new\<rparr>, wrote = True\<rparr>"
  by (simp add: confirm_and_write_def show_diff_and_confirm_def write_text_def)

lemma confirm_and_write_unencodable:
  "old \<noteq> new \<Longrightarrow> \<not> encodable new \<Longrightarrow> writable f \<Longrightarrow>
   confirm_and_write path old new True True idempotent_ok resp f =
     \<lparr>printed = [], ending = Raised UnicodeEncodeError, target = f\<lparr>content := Some []\<rparr>,
      wrote = False\<rparr>"
  by (simp add: confirm_and_write_def show_diff_and_confirm_def write_text_def say_def)

lemma confirm_and_write_wrote:
  "wrote (confirm_and_write path old new force quiet idempotent_ok resp f) \<Longrightarrow>
   content (target (confirm_and_write path old new force quiet idempotent_ok resp f)) = Some new"
  by (auto simp: confirm_and_write_def show_diff_and_confirm_def write_text_def Let_def
      split: if_splits option.splits)

subsection \<open>The loops\<close>

lemma replace_line_loop_eq:
  "replace_line_loop a b ls (m, c, nl) =
     (m \<or> a \<in> set ls, c \<or> (a \<in> set ls \<and> a \<noteq> b), nl @ map (\<lambda>l. if l = a then b else l) ls)"
  by (induction ls arbitrary: m c nl) auto

lemma replace_line_re_loop_eq:
  "re_compiles r \<Longrightarrow>
   replace_line_re_loop r ls (m, c, nl) =
     Inr (m \<or> (\<exists>l\<in>set ls. re_search r l), c \<or> (\<exists>l\<in>set ls. re_sub r l \<noteq> l),
          nl @ map (re_sub r) ls)"
  by (induction ls arbitrary: m c nl) (auto simp: Let_def)

lemma replace_line_re_loop_no_compile:
  "\<not> re_compiles r \<Longrightarrow> replace_line_re_loop r ls st = (if ls = [] then Inr st else Inl RegexError)"
  by (cases ls; cases st) auto

subsection \<open>The candidate differs from what was read\<close>

lemma ensure_line_new_eq:
  "ensure_line_new old line = concat (map (\<lambda>l. l @ [LF]) (splitlines old @ [line]))"
  unfolding ensure_line_new_def by (simp add: join_snoc)

lemma ensure_line_new_neq: "CR \<notin> set old \<Longrightarrow> ensure_line_new old line \<noteq> old"
proof
  assume cr: "CR \<notin> set old" and eq: "ensure_line_new old line = old"
  have "length (ensure_line_new old line) =
          sum_list (map (\<lambda>l. length l + 1) (splitlines old)) + length line + 1"
    by (simp add: ensure_line_new_eq length_concat comp_def)
  with splitlines_length [OF cr] have "length old < length (ensure_line_new old line)"
    by simp
  with eq show False by simp
qed





subsection \<open>What a run that wrote has written\<close>


lemma ensure_line_wrote:
  "wrote (ensure_line path line force quiet idempotent_ok resp f) \<Longrightarrow>
   content (target (ensure_line path line force quiet idempotent_ok resp f)) =
     Some (ensure_line_new (text_of f) line)"
  by (auto simp: ensure_line_def safe_read_def read_text_def path_exists_def text_of_def
      dest: confirm_and_write_wrote split: if_splits option.splits)

lemma replace_line_wrote:
  "wrote (replace_line path a b force quiet idempotent_ok resp f) \<Longrightarrow>
   a \<in> set (splitlines (text_of f)) \<and>
   content (target (replace_line path a b force quiet idempotent_ok resp f)) =
     Some (join [LF] (map (\<lambda>l. if l = a then b else l) (splitlines (text_of f))) @ [LF])"
  by (auto simp: replace_line_def replace_line_loop_eq safe_read_def read_text_def text_of_def
      dest: confirm_and_write_wrote split: if_splits option.splits)

lemma replace_line_re_wrote:
  assumes "wrote (replace_line_re path r force quiet idempotent_ok resp f)"
  shows "splitlines (text_of f) \<noteq> [] \<and>
         content (target (replace_line_re path r force quiet idempotent_ok resp f)) =
           Some (join [LF] (map (re_sub r) (splitlines (text_of f))) @ [LF])"
proof (cases "re_compiles r")
  case True
  with assms show ?thesis
    by (auto simp: replace_line_re_def replace_line_re_loop_eq safe_read_def read_text_def
        text_of_def dest: confirm_and_write_wrote split: if_splits option.splits)
next
  case False
  with assms show ?thesis
    by (auto simp: replace_line_re_def replace_line_re_loop_no_compile safe_read_def
        read_text_def text_of_def split: if_splits option.splits)
qed

lemma ensure_block_wrote:
  "wrote (ensure_block path block_lines ms me force quiet idempotent_ok resp f) \<Longrightarrow>
   content (target (ensure_block path block_lines ms me force quiet idempotent_ok resp f)) =
     Some (ensure_block_new (text_of f) block_lines ms me)"
  by (auto simp: ensure_block_def safe_read_def read_text_def path_exists_def text_of_def Let_def
      dest: confirm_and_write_wrote split: if_splits option.splits)

subsection \<open>Substring search and trimming\<close>

lemma str_index_Some_iff:
  "str_index s sub = Some i \<longleftrightarrow>
     i \<le> length s \<and> prefix sub (drop i s) \<and> (\<forall>k<i. \<not> prefix sub (drop k s))"
proof (induction s arbitrary: i)
  case Nil
  then show ?case by auto
next
  case (Cons c cs)
  show ?case
  proof (cases "prefix sub (c # cs)")
    case True
    then show ?thesis by (cases i) auto
  next
    case False
    show ?thesis
    proof (cases i)
      case 0
      with False show ?thesis by simp
    next
      case (Suc i')
      have "(\<forall>k<Suc i'. \<not> prefix sub (drop k (c # cs))) \<longleftrightarrow> (\<forall>k<i'. \<not> prefix sub (drop k cs))"
        using False by (auto simp: less_Suc_eq_0_disj)
      with False Suc Cons.IH [of i'] show ?thesis by auto
    qed
  qed
qed

lemma str_index_None_iff:
  "str_index s sub = None \<longleftrightarrow> (\<forall>k\<le>length s. \<not> prefix sub (drop k s))"
proof (induction s)
  case Nil
  then show ?case by auto
next
  case (Cons c cs)
  have "(\<forall>k\<le>length (c # cs). \<not> prefix sub (drop k (c # cs))) \<longleftrightarrow>
        \<not> prefix sub (c # cs) \<and> (\<forall>k\<le>length cs. \<not> prefix sub (drop k cs))"
  proof
    assume h: "\<forall>k\<le>length (c # cs). \<not> prefix sub (drop k (c # cs))"
    from h [rule_format, of 0] have a: "\<not> prefix sub (c # cs)" by simp
    have "\<not> prefix sub (drop k cs)" if "k \<le> length cs" for k
      using h [rule_format, of "Suc k"] that by simp
    with a show "\<not> prefix sub (c # cs) \<and> (\<forall>k\<le>length cs. \<not> prefix sub (drop k cs))" by blast
  next
    assume h: "\<not> prefix sub (c # cs) \<and> (\<forall>k\<le>length cs. \<not> prefix sub (drop k cs))"
    show "\<forall>k\<le>length (c # cs). \<not> prefix sub (drop k (c # cs))"
    proof (intro allI impI)
      fix k assume "k \<le> length (c # cs)"
      with h show "\<not> prefix sub (drop k (c # cs))" by (cases k) auto
    qed
  qed
  with Cons show ?case by auto
qed

lemma str_index_bound:
  "str_index s sub = Some i \<Longrightarrow> i + length sub \<le> length s \<and> take (length sub) (drop i s) = sub"
proof -
  assume "str_index s sub = Some i"
  then have i: "i \<le> length s" and p: "prefix sub (drop i s)"
    by (simp_all add: str_index_Some_iff)
  from p have "length sub \<le> length (drop i s)" by (rule prefix_length_le)
  with i have "i + length sub \<le> length s" by simp
  moreover from p have "take (length sub) (drop i s) = sub"
    by (auto simp: prefix_def)
  ultimately show ?thesis by simp
qed

lemma rstrip_append_space: "isspace c \<Longrightarrow> rstrip (s @ [c]) = rstrip s"
  by (simp add: rstrip_def)

lemma rstrip_idem: "rstrip (rstrip s) = rstrip s"
  by (simp add: rstrip_def dropWhile_idem)

lemma lstrip_idem: "lstrip (lstrip s) = lstrip s"
  by (simp add: lstrip_def dropWhile_idem)

lemma lstrip_Cons_space: "isspace c \<Longrightarrow> lstrip (c # s) = lstrip s"
  by (simp add: lstrip_def)

lemma isspace_LF: "isspace LF"
  by (simp add: isspace_def)

lemma lstrip_decomp:
  "\<exists>ws. s = ws @ lstrip s \<and> (\<forall>c\<in>set ws. isspace c) \<and> (lstrip s = [] \<or> \<not> isspace (hd (lstrip s)))"
proof -
  have "s = takeWhile isspace s @ lstrip s" by (simp add: lstrip_def)
  moreover have "\<forall>c\<in>set (takeWhile isspace s). isspace c" by (auto dest: set_takeWhileD)
  moreover have "lstrip s = [] \<or> \<not> isspace (hd (lstrip s))"
    unfolding lstrip_def using hd_dropWhile [of isspace s] by blast
  ultimately show ?thesis by blast
qed

lemma rstrip_decomp:
  "\<exists>ws. s = rstrip s @ ws \<and> (\<forall>c\<in>set ws. isspace c) \<and> (rstrip s = [] \<or> \<not> isspace (last (rstrip s)))"
proof -
  let ?ws = "rev (takeWhile isspace (rev s))"
  have "rev s = takeWhile isspace (rev s) @ dropWhile isspace (rev s)" by simp
  then have "rev (rev s) = rev (takeWhile isspace (rev s) @ dropWhile isspace (rev s))" by simp
  then have "s = rstrip s @ ?ws"
    unfolding rstrip_def by (simp only: rev_append rev_rev_ident)
  moreover have "\<forall>c\<in>set ?ws. isspace c" by (auto dest: set_takeWhileD)
  moreover have "rstrip s = [] \<or> \<not> isspace (last (rstrip s))"
  proof (cases "dropWhile isspace (rev s) = []")
    case True then show ?thesis by (simp add: rstrip_def)
  next
    case False
    with hd_dropWhile [of isspace "rev s"] have "\<not> isspace (hd (dropWhile isspace (rev s)))" by blast
    with False show ?thesis by (simp add: rstrip_def last_rev)
  qed
  ultimately show ?thesis by blast
qed

lemma prefix_rstrip: "prefix (rstrip s) s"
proof -
  from rstrip_decomp [of s] obtain ws where "s = rstrip s @ ws" by blast
  then show ?thesis by (rule prefixI)
qed

subsection \<open>The candidate of \<open>ensure_block\<close>\<close>

lemma canonical_block_eq:
  "canonical_block block_lines ms me = concat (map (\<lambda>l. l @ [LF]) (ms # block_lines)) @ me"
proof -
  have "join [LF] (ls @ [e]) = concat (map (\<lambda>l. l @ [LF]) ls) @ e" for ls e
  proof (induction ls)
    case Nil then show ?case by simp
  next
    case (Cons l ls) then show ?case by (cases ls) simp_all
  qed
  from this [of "ms # block_lines" me] show ?thesis by (simp add: canonical_block_def)
qed

lemma ensure_block_new_both:
  assumes "str_index old ms = Some i" "str_index old me = Some j"
  shows "ensure_block_new old bl ms me =
           rstrip (take i old) @ [LF] @ canonical_block bl ms me @ [LF] @
           lstrip (drop (j + length me) old)"
  using assms by (simp add: ensure_block_new_def contains_def Let_def)

lemma ensure_block_run:
  assumes "(if path_exists f then safe_read path quiet f else Inr []) = Inr old"
    and "ensure_block_new old bl ms me \<noteq> old"
  shows "ensure_block path bl ms me force quiet idempotent_ok resp f =
           confirm_and_write path old (ensure_block_new old bl ms me) force quiet idempotent_ok resp f"
  using assms by (auto simp: ensure_block_def Let_def)

lemma ensure_block_new_shape:
  "(\<not> (contains old ms \<and> contains old me) \<longrightarrow>
      (\<exists>pre. ensure_block_new old bl ms me = pre @ me @ [LF])) \<and>
   (contains old ms \<and> contains old me \<longrightarrow>
      (\<exists>pre. ensure_block_new old bl ms me =
         pre @ me @ [LF] @ lstrip (drop (the (str_index old me) + length me) old)))"
proof -
  let ?b0 = "concat (map (\<lambda>l. l @ [LF]) (ms # bl))"
  have cb: "canonical_block bl ms me = ?b0 @ me" by (rule canonical_block_eq)
  show ?thesis
  proof (intro conjI impI)
    assume n: "\<not> (contains old ms \<and> contains old me)"
    show "\<exists>pre. ensure_block_new old bl ms me = pre @ me @ [LF]"
    proof (cases "rstrip old = []")
      case True
      with n have "ensure_block_new old bl ms me = ?b0 @ me @ [LF]"
        by (auto simp: ensure_block_new_def Let_def cb)
      then show ?thesis by blast
    next
      case False
      with n have "ensure_block_new old bl ms me = (rstrip old @ [LF] @ ?b0) @ me @ [LF]"
        by (auto simp: ensure_block_new_def Let_def cb)
      then show ?thesis by blast
    qed
  next
    assume "contains old ms \<and> contains old me"
    then have "ensure_block_new old bl ms me =
        (rstrip (take (the (str_index old ms)) old) @ [LF] @ ?b0) @ me @ [LF] @
        lstrip (drop (the (str_index old me) + length me) old)"
      by (simp add: ensure_block_new_def Let_def cb)
    then show "\<exists>pre. ensure_block_new old bl ms me =
         pre @ me @ [LF] @ lstrip (drop (the (str_index old me) + length me) old)"
      by blast
  qed
qed

subsection \<open>Trailing newlines\<close>

lemma ends_with_one_newline_snoc:
  "ends_with_one_newline (s @ [LF]) \<longleftrightarrow> \<not> ends_with_newline s"
  by (simp add: ends_with_one_newline_def ends_with_newline_def)

lemma join_Nil_iff: "join [LF] ls = [] \<longleftrightarrow> ls = [] \<or> ls = [[]]"
  by (induction "[LF]" ls rule: join.induct) auto

lemma ends_with_newline_join:
  "ls \<noteq> [] \<Longrightarrow>
   ends_with_newline (join [LF] ls) \<longleftrightarrow>
     (if last ls = [] then 2 \<le> length ls else last (last ls) = LF)"
proof (induction "[LF]" ls rule: join.induct)
  case 1 then show ?case by simp
next
  case (2 x) then show ?case by (simp add: ends_with_newline_def)
next
  case (3 x y ys)
  show ?case
  proof (cases "join [LF] (y # ys) = []")
    case True
    then have "y = [] \<and> ys = []" by (simp add: join_Nil_iff)
    then show ?thesis by (simp add: ends_with_newline_def)
  next
    case False
    then have ne: "y # ys \<noteq> [[]]" by (simp add: join_Nil_iff)
    from False have "ends_with_newline (join [LF] (x # y # ys)) = ends_with_newline (join [LF] (y # ys))"
      by (simp add: ends_with_newline_def)
    also have "\<dots> = (if last (y # ys) = [] then 2 \<le> length (y # ys) else last (last (y # ys)) = LF)"
      using "3.hyps" by simp
    also have "\<dots> = (if last (x # y # ys) = [] then 2 \<le> length (x # y # ys)
                      else last (last (x # y # ys)) = LF)"
      using ne by (cases ys) auto
    finally show ?thesis .
  qed
qed

lemma ends_with_one_newline_append:
  "t \<noteq> [] \<Longrightarrow> hd t \<noteq> LF \<Longrightarrow> ends_with_one_newline (s @ t) = ends_with_one_newline t"
  by (cases t rule: rev_cases; cases "butlast t" rule: rev_cases)
     (auto simp: ends_with_one_newline_def ends_with_newline_def butlast_append)

lemma ends_like_suffix:
  assumes "new = pre @ [LF] @ lstrip (drop n old)" "lstrip (drop n old) \<noteq> []"
  shows "ends_with_one_newline new \<longleftrightarrow> ends_with_one_newline old"
proof -
  let ?a = "lstrip (drop n old)"
  from lstrip_decomp [of "drop n old"] obtain ws
    where ws: "drop n old = ws @ ?a" and hd: "?a = [] \<or> \<not> isspace (hd ?a)" by blast
  from hd assms(2) isspace_LF have h: "hd ?a \<noteq> LF" by auto
  have "old = (take n old @ ws) @ ?a"
    using ws by (metis append_assoc append_take_drop_id)
  then have "ends_with_one_newline old = ends_with_one_newline ((take n old @ ws) @ ?a)" by simp
  also have "\<dots> = ends_with_one_newline ?a"
    by (rule ends_with_one_newline_append [OF assms(2) h])
  also have "\<dots> = ends_with_one_newline ((pre @ [LF]) @ ?a)"
    by (rule ends_with_one_newline_append [OF assms(2) h, symmetric])
  finally show ?thesis using assms(1) by simp
qed

subsection \<open>Running \<open>ensure_block\<close> again\<close>

text \<open>An occurrence of a string without LF lies on one side of an LF.\<close>

lemma not_contains_iff:
  "sub \<noteq> [] \<Longrightarrow> \<not> contains s sub \<longleftrightarrow> (\<forall>k. \<not> prefix sub (drop k s))"
proof -
  assume ne: "sub \<noteq> []"
  have "\<not> prefix sub (drop k s)" if "\<forall>k\<le>length s. \<not> prefix sub (drop k s)" for k
  proof (cases "k \<le> length s")
    case True with that show ?thesis by blast
  next
    case False with ne show ?thesis by simp
  qed
  then show ?thesis by (auto simp: contains_def str_index_None_iff)
qed

lemma prefix_across_LF:
  assumes "LF \<notin> set sub" "sub \<noteq> []" "prefix sub (drop k (xs @ LF # ys))"
  shows "(k \<le> length xs \<and> prefix sub (drop k xs)) \<or>
         (length xs < k \<and> prefix sub (drop (k - length xs - 1) ys))"
proof (cases "k \<le> length xs")
  case True
  with assms(3) have "prefix sub (drop k xs @ LF # ys)" by simp
  then have "prefix sub (drop k xs) \<or> (\<exists>us. sub = drop k xs @ us \<and> prefix us (LF # ys))"
    by (simp add: prefix_append)
  then have "prefix sub (drop k xs)"
  proof
    assume "prefix sub (drop k xs)" then show ?thesis .
  next
    assume "\<exists>us. sub = drop k xs @ us \<and> prefix us (LF # ys)"
    then obtain us where us: "sub = drop k xs @ us" "prefix us (LF # ys)" by blast
    show ?thesis
    proof (cases us)
      case Nil with us show ?thesis by simp
    next
      case (Cons u us')
      with us(2) have "u = LF" by simp
      with us(1) Cons assms(1) show ?thesis by simp
    qed
  qed
  with True show ?thesis by blast
next
  case False
  then have "drop k (xs @ LF # ys) = drop (k - length xs - 1) ys"
    by (cases "k - length xs") auto
  with assms(3) False show ?thesis by simp
qed

lemma no_occurrence_in_lines:
  assumes "LF \<notin> set sub" "sub \<noteq> []"
  shows "\<forall>l\<in>set ls. \<not> contains l sub \<Longrightarrow>
         prefix sub (drop k (concat (map (\<lambda>l. l @ [LF]) ls) @ t)) \<Longrightarrow>
         length (concat (map (\<lambda>l. l @ [LF]) ls)) \<le> k"
proof (induction ls arbitrary: k)
  case Nil then show ?case by simp
next
  case (Cons l ls)
  let ?rest = "concat (map (\<lambda>l. l @ [LF]) ls) @ t"
  from Cons.prems(2) have "prefix sub (drop k (l @ LF # ?rest))" by simp
  from prefix_across_LF [OF assms this]
  have "(k \<le> length l \<and> prefix sub (drop k l)) \<or>
        (length l < k \<and> prefix sub (drop (k - length l - 1) ?rest))" .
  moreover from Cons.prems(1) assms(2) have "\<not> prefix sub (drop k l)"
    by (simp add: not_contains_iff)
  ultimately have k: "length l < k" and p: "prefix sub (drop (k - length l - 1) ?rest)" by auto
  from Cons.IH [OF _ p] Cons.prems(1)
  have "length (concat (map (\<lambda>l. l @ [LF]) ls)) \<le> k - length l - 1" by simp
  with k show ?case by simp
qed

lemma not_contains_prefix:
  assumes "prefix p s" "\<not> contains s sub" "sub \<noteq> []"
  shows "\<not> contains p sub"
proof -
  from assms(1) obtain r where s: "s = p @ r" by (auto simp: prefix_def)
  have "\<not> prefix sub (drop k p)" for k
  proof
    assume "prefix sub (drop k p)"
    then have "prefix sub (drop k p @ drop (k - length p) r)" by (rule prefix_prefix)
    then have "prefix sub (drop k s)" by (simp add: s)
    with assms(2,3) show False by (simp add: not_contains_iff)
  qed
  with assms(3) show ?thesis by (simp add: not_contains_iff)
qed

lemma not_contains_before_first:
  assumes "str_index s sub = Some i" "sub \<noteq> []" "n \<le> i"
  shows "\<not> contains (take n s) sub"
proof -
  have "\<not> prefix sub (drop k (take n s))" for k
  proof
    assume p: "prefix sub (drop k (take n s))"
    then have "length sub \<le> length (drop k (take n s))" by (rule prefix_length_le)
    with assms(2) have kl: "k < length (take n s)" by (cases "k < length (take n s)") auto
    then have kn: "k < n" by simp
    have e: "drop k (take n s @ drop n s) =
        drop k (take n s) @ drop (k - length (take n s)) (drop n s)"
      by (rule drop_append)
    from kl have z: "k - length (take n s) = 0" by simp
    from e have "drop k s = drop k (take n s) @ drop n s" unfolding z by simp
    with p have "prefix sub (drop k s)" by (simp add: prefix_prefix)
    moreover from assms(1) have "\<forall>k<i. \<not> prefix sub (drop k s)" by (simp add: str_index_Some_iff)
    ultimately show False using kn assms(3) by auto
  qed
  with assms(2) show ?thesis by (simp add: not_contains_iff)
qed

text \<open>A text that holds the canonical block after a trimmed text without markers, and
  a trimmed rest after it, is its own candidate.\<close>

lemma block_stable:
  assumes S: "ms \<noteq> []" "LF \<notin> set ms"
    and E: "me \<noteq> []" "LF \<notin> set me"
    and ES: "\<not> contains ms me"
    and EB: "\<forall>l\<in>set bl. \<not> contains l me"
    and XS: "\<not> contains x ms"
    and XE: "\<not> contains x me"
    and X: "rstrip x = x"
    and A: "lstrip a = a"
  shows "ensure_block_new (x @ [LF] @ canonical_block bl ms me @ [LF] @ a) bl ms me =
           x @ [LF] @ canonical_block bl ms me @ [LF] @ a"
proof -
  let ?b0 = "concat (map (\<lambda>l. l @ [LF]) (ms # bl))"
  let ?n = "x @ [LF] @ canonical_block bl ms me @ [LF] @ a"
  have cb: "canonical_block bl ms me = ?b0 @ me" by (rule canonical_block_eq)
  have n1: "?n = x @ LF # (?b0 @ me @ LF # a)" by (simp add: cb)
  have n2: "?n = x @ LF # (ms @ LF # (concat (map (\<lambda>l. l @ [LF]) bl) @ me @ LF # a))"
    by (simp add: cb)
  have iS: "str_index ?n ms = Some (length x + 1)"
  proof -
    have "prefix ms (drop (length x + 1) ?n)" unfolding n2 by simp
    moreover have "\<not> prefix ms (drop k ?n)" if "k < length x + 1" for k
    proof
      assume "prefix ms (drop k ?n)"
      then have "prefix ms (drop k (x @ LF # (?b0 @ me @ LF # a)))" by (simp only: n1)
      from prefix_across_LF [OF S(2,1) this] that have "prefix ms (drop k x)" by auto
      with XS S(1) show False by (simp add: not_contains_iff)
    qed
    moreover have "length x + 1 \<le> length ?n" by simp
    ultimately show ?thesis by (simp only: str_index_Some_iff) blast
  qed
  have iE: "str_index ?n me = Some (length x + 1 + length ?b0)"
  proof -
    have "drop (length x + 1 + length ?b0) ?n = me @ LF # a"
      unfolding n1 by simp
    then have "prefix me (drop (length x + 1 + length ?b0) ?n)" by simp
    moreover have "\<not> prefix me (drop k ?n)" if k: "k < length x + 1 + length ?b0" for k
    proof
      assume "prefix me (drop k ?n)"
      then have "prefix me (drop k (x @ LF # (?b0 @ me @ LF # a)))" by (simp only: n1)
      from prefix_across_LF [OF E(2,1) this]
      have "(k \<le> length x \<and> prefix me (drop k x)) \<or>
            (length x < k \<and> prefix me (drop (k - length x - 1) (?b0 @ me @ LF # a)))" .
      moreover from XE E(1) have "\<not> prefix me (drop k x)" by (simp add: not_contains_iff)
      ultimately have kx: "length x < k"
        and p: "prefix me (drop (k - length x - 1) (?b0 @ (me @ LF # a)))" by auto
      from ES EB have "\<forall>l\<in>set (ms # bl). \<not> contains l me" by simp
      from no_occurrence_in_lines [OF E(2,1) this p]
      have "length ?b0 \<le> k - length x - 1" .
      with k kx show False by simp
    qed
    moreover have "length x + 1 + length ?b0 \<le> length ?n" by (simp add: cb)
    ultimately show ?thesis by (simp only: str_index_Some_iff) blast
  qed
  have t: "take (length x + 1) ?n = x @ [LF]" by simp
  have d: "drop (length x + 1 + length ?b0 + length me) ?n = LF # a"
    unfolding n1 by simp
  have "ensure_block_new ?n bl ms me =
          rstrip (take (length x + 1) ?n) @ [LF] @ canonical_block bl ms me @ [LF] @
          lstrip (drop (length x + 1 + length ?b0 + length me) ?n)"
    by (rule ensure_block_new_both [OF iS iE])
  also have "rstrip (take (length x + 1) ?n) = x"
    unfolding t using rstrip_append_space [OF isspace_LF, of x] X by simp
  also have "lstrip (drop (length x + 1 + length ?b0 + length me) ?n) = a"
    unfolding d using lstrip_Cons_space [OF isspace_LF, of a] A by simp
  finally show ?thesis .
qed

lemma ensure_block_new_stable:
  assumes S: "ms \<noteq> []" "LF \<notin> set ms"
    and E: "me \<noteq> []" "LF \<notin> set me"
    and ES: "\<not> contains ms me"
    and EB: "\<forall>l\<in>set bl. \<not> contains l me"
    and first: "(\<not> contains old ms \<and> \<not> contains old me \<and> rstrip old \<noteq> []) \<or>
                (\<exists>i j. str_index old ms = Some i \<and> str_index old me = Some j \<and> i \<le> j)"
  shows "ensure_block_new (ensure_block_new old bl ms me) bl ms me = ensure_block_new old bl ms me"
  using first
proof
  assume a: "\<not> contains old ms \<and> \<not> contains old me \<and> rstrip old \<noteq> []"
  then have n: "ensure_block_new old bl ms me =
      rstrip old @ [LF] @ canonical_block bl ms me @ [LF] @ []"
    by (simp add: ensure_block_new_def Let_def)
  have xs: "\<not> contains (rstrip old) ms"
    using not_contains_prefix [OF prefix_rstrip _ S(1)] a by blast
  have xe: "\<not> contains (rstrip old) me"
    using not_contains_prefix [OF prefix_rstrip _ E(1)] a by blast
  have "lstrip [] = []" by (simp add: lstrip_def)
  from block_stable [OF S E ES EB xs xe rstrip_idem this]
  show ?thesis unfolding n .
next
  assume "\<exists>i j. str_index old ms = Some i \<and> str_index old me = Some j \<and> i \<le> j"
  then obtain i j where i: "str_index old ms = Some i" and j: "str_index old me = Some j"
    and le: "i \<le> j" by blast
  have n: "ensure_block_new old bl ms me =
      rstrip (take i old) @ [LF] @ canonical_block bl ms me @ [LF] @
      lstrip (drop (j + length me) old)"
    by (rule ensure_block_new_both [OF i j])
  have xs: "\<not> contains (rstrip (take i old)) ms"
    using not_contains_prefix [OF prefix_rstrip not_contains_before_first [OF i S(1) le_refl] S(1)] .
  have xe: "\<not> contains (rstrip (take i old)) me"
    using not_contains_prefix [OF prefix_rstrip not_contains_before_first [OF j E(1) le] E(1)] .
  from block_stable [OF S E ES EB xs xe rstrip_idem lstrip_idem]
  show ?thesis unfolding n .
qed

lemma universal_newlines_id: "CR \<notin> set s \<Longrightarrow> universal_newlines s = s"
  by (induction s rule: universal_newlines.induct) auto

lemma set_rstrip: "set (rstrip s) \<subseteq> set s"
proof -
  from rstrip_decomp [of s] obtain ws where "s = rstrip s @ ws" by blast
  then have "set s = set (rstrip s) \<union> set ws" by (metis set_append)
  then show ?thesis by blast
qed

lemma set_lstrip: "set (lstrip s) \<subseteq> set s"
  by (auto simp: lstrip_def dest: set_dropWhileD)

lemma set_canonical_block:
  "set (canonical_block bl ms me) \<subseteq> set ms \<union> set me \<union> {LF} \<union> (\<Union>l\<in>set bl. set l)"
  by (auto simp: canonical_block_eq)

lemma ensure_block_new_no_CR:
  assumes "CR \<notin> set old" "CR \<notin> set ms" "CR \<notin> set me" "\<forall>l\<in>set bl. CR \<notin> set l"
  shows "CR \<notin> set (ensure_block_new old bl ms me)"
proof -
  from assms(2-4) set_canonical_block [of bl ms me]
  have b: "CR \<notin> set (canonical_block bl ms me)" by auto
  have r: "CR \<notin> set (rstrip (take n old))" for n
    using assms(1) set_rstrip [of "take n old"] set_take_subset [of n old] by (meson subsetD)
  have l: "CR \<notin> set (lstrip (drop n old))" for n
    using assms(1) set_lstrip [of "drop n old"] set_drop_subset [of n old] by (meson subsetD)
  from assms(1) set_rstrip [of old] have r': "CR \<notin> set (rstrip old)" by auto
  from b r l r' show ?thesis by (simp add: ensure_block_new_def Let_def)
qed

lemma confirm_and_write_target:
  "wrote (confirm_and_write path old new force quiet idempotent_ok resp f) \<Longrightarrow>
   target (confirm_and_write path old new force quiet idempotent_ok resp f) = f\<lparr>content := Some new\<rparr>"
  by (auto simp: confirm_and_write_def show_diff_and_confirm_def write_text_def Let_def
      split: if_splits option.splits)

lemma ensure_block_wrote_target:
  "wrote (ensure_block path bl ms me force quiet idempotent_ok resp f) \<Longrightarrow>
   target (ensure_block path bl ms me force quiet idempotent_ok resp f) =
     f\<lparr>content := Some (ensure_block_new (text_of f) bl ms me)\<rparr>"
  by (auto simp: ensure_block_def safe_read_def read_text_def path_exists_def text_of_def Let_def
      dest: confirm_and_write_target split: if_splits option.splits)

lemma ensure_block_already_correct:
  assumes "content g = Some n" "readable g" "CR \<notin> set n" "ensure_block_new n bl ms me = n"
  shows "ensure_block path bl ms me force quiet idempotent_ok resp g =
           \<lparr>printed = say quiet Stdout (BlockAlreadyCorrect path),
            ending = Exit (exit_ok_or_noop idempotent_ok), target = g, wrote = False\<rparr>"
  using assms
  by (simp add: ensure_block_def path_exists_def safe_read_def read_text_def
      universal_newlines_id Let_def)

lemma ensure_block_wrote_readable:
  "wrote (ensure_block path bl ms me force quiet idempotent_ok resp f) \<Longrightarrow>
   content f \<noteq> None \<Longrightarrow> readable f"
  by (auto simp: ensure_block_def safe_read_def read_text_def path_exists_def Let_def
      split: if_splits option.splits)

lemma first_run_reads_file:
  assumes "ms \<noteq> []"
    and "(\<not> contains (text_of f) ms \<and> \<not> contains (text_of f) me \<and> rstrip (text_of f) \<noteq> []) \<or>
         (\<exists>i j. str_index (text_of f) ms = Some i \<and> str_index (text_of f) me = Some j \<and> i \<le> j)"
  shows "content f \<noteq> None"
proof
  assume "content f = None"
  then have "text_of f = []" by (simp add: text_of_def)
  with assms show False by (auto simp: rstrip_def)
qed

section \<open>The exit code of a line that is already present\<close>

text \<open>
  The file holds \<open>alpha\<close> and a newline, and the command line asks quietly for the line
  \<open>alpha\<close>. The two runs do not end with 4 (without \<open>-I\<close>) and 0 (with \<open>-I\<close>).
\<close>

theorem main_line_present_not_4_then_0:
  "\<not> (ending (main ((cli (py ''t.conf''))\<lparr>arg_line := Some (py ''alpha''), arg_quiet := True\<rparr>)
              None (conf ''alpha\<newline>'')) = Exit 4 \<and>
       ending (main ((cli (py ''t.conf''))\<lparr>arg_line := Some (py ''alpha''), arg_quiet := True,
              arg_idempotent_fail := True\<rparr>) None (conf ''alpha\<newline>'')) = Exit 0)"
  by (simp add: main_defs ensure_line_def run_defs str_defs)

text \<open>
  C1: for a file containing exactly \<open>alpha\<close> and a newline, Ensure-Line with the line
  \<open>alpha\<close> in quiet mode without force is to exit with code 4 and leave the file
  unchanged, and the same invocation with \<open>-I\<close> is to exit with code 0 and leave the
  file unchanged; the repository's test of this input asserts these two codes, and the
  operations themselves default to \<open>idempotent_ok = False\<close>, code 4. The program does
  the opposite at this input, since \<open>main\<close> passes \<open>not args.idempotent_fail\<close> as
  \<open>idempotent_ok\<close>: the run without \<open>-I\<close> exits with code 0 and the run with \<open>-I\<close>
  exits with code 4. Nothing is printed, nothing is written and the file is unchanged in
  both runs.
\<close>

theorem main_line_present_exit_codes:
  "main ((cli (py ''t.conf''))\<lparr>arg_line := Some (py ''alpha''), arg_quiet := True\<rparr>) None
       (conf ''alpha\<newline>'') =
     \<lparr>printed = [], ending = Exit 0, target = conf ''alpha\<newline>'', wrote = False\<rparr> \<and>
   main ((cli (py ''t.conf''))\<lparr>arg_line := Some (py ''alpha''), arg_quiet := True,
       arg_idempotent_fail := True\<rparr>) None (conf ''alpha\<newline>'') =
     \<lparr>printed = [], ending = Exit 4, target = conf ''alpha\<newline>'', wrote = False\<rparr>"
  by (simp add: main_defs ensure_line_def run_defs str_defs)

section \<open>A read that fails\<close>

text \<open>In quiet mode a replace operation prints nothing at all when the file is absent,
  and nothing when the file may not be read.\<close>

theorem read_failure_silent_when_quiet:
  "printed (replace_line (py ''t.conf'') (py ''a'') (py ''b'') False True True None absent) = [] \<and>
   printed (replace_line (py ''t.conf'') (py ''a'') (py ''b'') False True True None
      \<lparr>content = Some (py ''a\<newline>''), readable = False, writable = True\<rparr>) = []"
  by (simp add: replace_line_def run_defs absent_def)

text \<open>
  C4, as the code has it: when the read of the target fails because the file is absent
  (the replace operations; the ensure operations take a missing file for an empty one and
  do not read it) or because it may not be read (all four operations), the one-line
  message goes to standard error only when quiet mode is off, nothing is printed in
  quiet mode, and the process exits with code 5 (not found) or 2 (permission denied) in
  both modes, leaving the file as it is.
\<close>

theorem read_failure_message_unless_quiet:
  "(content f = None \<longrightarrow>
      safe_read path quiet f =
        Inl \<lparr>printed = (if quiet then [] else [(Stderr, FileNotFound path)]),
             ending = Exit EXIT_NOT_FOUND, target = f, wrote = False\<rparr> \<and>
      replace_line path old_line new_line force quiet idempotent_ok resp f =
        \<lparr>printed = (if quiet then [] else [(Stderr, FileNotFound path)]),
         ending = Exit EXIT_NOT_FOUND, target = f, wrote = False\<rparr> \<and>
      replace_line_re path r force quiet idempotent_ok resp f =
        \<lparr>printed = (if quiet then [] else [(Stderr, FileNotFound path)]),
         ending = Exit EXIT_NOT_FOUND, target = f, wrote = False\<rparr>) \<and>
   (content f \<noteq> None \<and> \<not> readable f \<longrightarrow>
      safe_read path quiet f =
        Inl \<lparr>printed = (if quiet then [] else [(Stderr, PermissionDenied path)]),
             ending = Exit EXIT_PERMISSIONS, target = f, wrote = False\<rparr> \<and>
      (\<forall>op \<in> {ensure_line path line force quiet idempotent_ok resp f,
                ensure_block path block_lines marker_start marker_end force quiet
                  idempotent_ok resp f,
                replace_line path old_line new_line force quiet idempotent_ok resp f,
                replace_line_re path r force quiet idempotent_ok resp f}.
         op = \<lparr>printed = (if quiet then [] else [(Stderr, PermissionDenied path)]),
               ending = Exit EXIT_PERMISSIONS, target = f, wrote = False\<rparr>))"
  by (auto simp: replace_line_def replace_line_re_def ensure_line_def ensure_block_def run_defs)

theorem read_failure_message_unless_quiet_witness:
  "content absent = None \<and>
   replace_line (py ''t.conf'') (py ''a'') (py ''b'') False False True None absent =
     \<lparr>printed = [(Stderr, FileNotFound (py ''t.conf''))], ending = Exit 5, target = absent,
      wrote = False\<rparr> \<and>
   replace_line (py ''t.conf'') (py ''a'') (py ''b'') False True True None absent =
     \<lparr>printed = [], ending = Exit 5, target = absent, wrote = False\<rparr> \<and>
   content ((conf ''a'')\<lparr>readable := False\<rparr>) \<noteq> None \<and>
   \<not> readable ((conf ''a'')\<lparr>readable := False\<rparr>) \<and>
   ensure_line (py ''t.conf'') (py ''b'') True True True None ((conf ''a'')\<lparr>readable := False\<rparr>) =
     \<lparr>printed = [], ending = Exit 2, target = (conf ''a'')\<lparr>readable := False\<rparr>, wrote = False\<rparr>"
proof -
  have a: "content absent = None" by (simp add: absent_def)
  have b: "content ((conf ''a'')\<lparr>readable := False\<rparr>) \<noteq> None \<and>
           \<not> readable ((conf ''a'')\<lparr>readable := False\<rparr>)"
    by (simp add: conf_def)
  show ?thesis
    using a b
      read_failure_message_unless_quiet [of absent "py ''t.conf''" False "py ''a''" "py ''b''"
        False True None]
      read_failure_message_unless_quiet [of absent "py ''t.conf''" True "py ''a''" "py ''b''"
        False True None]
      read_failure_message_unless_quiet [of "(conf ''a'')\<lparr>readable := False\<rparr>" "py ''t.conf''"
        True _ _ True True None _ "py ''b''"]
    by simp
qed

section \<open>Replacing an exact line\<close>

text \<open>
  C8: for every existing (and readable) file in which no line is exactly equal to
  \<open>from\<close>, Replace-Exact-Line exits with code 3 (NoMatch); nothing is written and the
  file is left as it is. The only output is the notice, unless quiet.
\<close>

theorem replace_line_no_match:
  assumes "safe_read path quiet f = Inr old"
    and "old_line \<notin> set (splitlines old)"
  shows "replace_line path old_line new_line force quiet idempotent_ok resp f =
           \<lparr>printed = say quiet Stdout (NoExactMatch path), ending = Exit EXIT_NO_MATCH,
            target = f, wrote = False\<rparr>"
  using assms by (simp add: replace_line_def replace_line_loop_eq)

theorem replace_line_no_match_witness:
  "safe_read (py ''t.conf'') True (conf ''something else\<newline>'') =
     Inr (py ''something else\<newline>'') \<and>
   py ''doesnot=exist'' \<notin> set (splitlines (py ''something else\<newline>'')) \<and>
   replace_line (py ''t.conf'') (py ''doesnot=exist'') (py ''new=val'') False True True None
       (conf ''something else\<newline>'') =
     \<lparr>printed = [], ending = Exit 3, target = conf ''something else\<newline>'', wrote = False\<rparr>"
proof -
  have r: "safe_read (py ''t.conf'') True (conf ''something else\<newline>'') =
             Inr (py ''something else\<newline>'')"
    by (simp add: safe_read_def read_text_def conf_def py_def)
  have n: "py ''doesnot=exist'' \<notin> set (splitlines (py ''something else\<newline>''))"
    by (simp add: splitlines_def py_def is_linebreak_def)
  show ?thesis
    using r n replace_line_no_match [OF r n, of "py ''new=val''" False True None]
    by (simp add: say_def)
qed



section \<open>Replacing by pattern\<close>

text \<open>
  C7: for Replace-Pattern (with a pattern and a replacement that compile, on a file that
  can be read), the loop keeps two independent flags: whether some line matched the
  pattern, and whether the substituted text of some line differs from the line. If no
  line matched, the outcome is NoMatch: exit code 3, nothing written. If at least one
  line matched and substitution left every line as it was, the outcome is AlreadyCorrect:
  the operation exits with 0 when \<open>idempotent_ok\<close> and with 4 otherwise, and \<open>main\<close>
  passes \<open>idempotent_ok = not idempotent_fail\<close>, so the process exits with 4 under
  \<open>-I\<close> and with 0 without it; nothing is written.
\<close>

theorem replace_line_re_match_and_change_flags:
  assumes "safe_read path quiet f = Inr old" and "re_compiles r"
  shows "replace_line_re_loop r (splitlines old) (False, False, []) =
           Inr (\<exists>l\<in>set (splitlines old). re_search r l,
                \<exists>l\<in>set (splitlines old). re_sub r l \<noteq> l,
                map (re_sub r) (splitlines old)) \<and>
         ((\<forall>l\<in>set (splitlines old). \<not> re_search r l) \<longrightarrow>
            replace_line_re path r force quiet idempotent_ok resp f =
              \<lparr>printed = say quiet Stdout (NoRegexMatches path), ending = Exit EXIT_NO_MATCH,
               target = f, wrote = False\<rparr>) \<and>
         ((\<exists>l\<in>set (splitlines old). re_search r l) \<and>
          (\<forall>l\<in>set (splitlines old). re_sub r l = l) \<longrightarrow>
            replace_line_re path r force quiet idempotent_ok resp f =
              \<lparr>printed = say quiet Stdout (RegexMatchNoChanges path),
               ending = Exit (if idempotent_ok then EXIT_OK else EXIT_NO_CHANGE_NEEDED),
               target = f, wrote = False\<rparr> \<and>
            (\<forall>a. \<not> truthy (arg_line a) \<and>
                 \<not> (truthy (arg_block a) \<and> truthy (arg_start a) \<and> truthy (arg_end a)) \<and>
                 arg_replace a = None \<and> arg_replace_re a = Some r \<and>
                 filepath a = path \<and> arg_quiet a = quiet \<longrightarrow>
                 ending (main a resp f) =
                   Exit (if arg_idempotent_fail a then EXIT_NO_CHANGE_NEEDED else EXIT_OK) \<and>
                 target (main a resp f) = f \<and> \<not> wrote (main a resp f)))"
  using assms
  by (auto simp: replace_line_re_def replace_line_re_loop_eq exit_ok_or_noop_def main_def
      dispatch_def)

theorem replace_line_re_match_and_change_flags_witness:
  "safe_read (py ''t.conf'') True (conf ''foo=bar\<newline>'') = Inr (py ''foo=bar\<newline>'') \<and>
   re_compiles re_a_by_a \<and>
   (\<exists>l\<in>set (splitlines (py ''foo=bar\<newline>'')). re_search re_a_by_a l) \<and>
   ending (main ((cli (py ''t.conf''))\<lparr>arg_replace_re := Some re_a_by_a, arg_quiet := True,
       arg_idempotent_fail := True\<rparr>) None (conf ''foo=bar\<newline>'')) = Exit 4 \<and>
   ending (main ((cli (py ''t.conf''))\<lparr>arg_replace_re := Some re_a_by_a, arg_quiet := True\<rparr>)
       None (conf ''foo=bar\<newline>'')) = Exit 0 \<and>
   safe_read (py ''t.conf'') True (conf ''foo=b\<newline>'') = Inr (py ''foo=b\<newline>'') \<and>
   replace_line_re (py ''t.conf'') re_a_by_a False True True None (conf ''foo=b\<newline>'') =
     \<lparr>printed = [], ending = Exit 3, target = conf ''foo=b\<newline>'', wrote = False\<rparr>"
proof -
  have r1: "safe_read (py ''t.conf'') True (conf ''foo=bar\<newline>'') = Inr (py ''foo=bar\<newline>'')"
    by (simp add: safe_read_def read_text_def conf_def py_def)
  have r2: "safe_read (py ''t.conf'') True (conf ''foo=b\<newline>'') = Inr (py ''foo=b\<newline>'')"
    by (simp add: safe_read_def read_text_def conf_def py_def)
  have c: "re_compiles re_a_by_a" by (simp add: re_a_by_a_def)
  have s1: "splitlines (py ''foo=bar\<newline>'') = [py ''foo=bar'']"
    by (simp add: splitlines_def py_def is_linebreak_def)
  have s2: "splitlines (py ''foo=b\<newline>'') = [py ''foo=b'']"
    by (simp add: splitlines_def py_def is_linebreak_def)
  have m1: "\<exists>l\<in>set (splitlines (py ''foo=bar\<newline>'')). re_search re_a_by_a l"
    unfolding s1 by (simp add: re_a_by_a_def contains_def py_def)
  have u1: "\<forall>l\<in>set (splitlines (py ''foo=bar\<newline>'')). re_sub re_a_by_a l = l"
    by (simp add: re_a_by_a_def)
  have m2: "\<forall>l\<in>set (splitlines (py ''foo=b\<newline>'')). \<not> re_search re_a_by_a l"
    unfolding s2 by (simp add: re_a_by_a_def contains_def py_def)
  show ?thesis
    using r1 r2 c m1 u1 m2
      replace_line_re_match_and_change_flags [OF r1 c, of False True None]
      replace_line_re_match_and_change_flags [OF r2 c, of False True None]
    by (simp add: say_def cli_def truthy_def)
qed

section \<open>Ensuring a line\<close>

text \<open>
  C9: for every text read (the empty text for a missing file) with the line sequence
  \<open>L\<close> and every literal line \<open>x\<close> that is not an element of \<open>L\<close>, Ensure-Line goes on
  to the confirmation with the candidate \<open>L\<close> followed by \<open>x\<close>, each line ended by one
  newline; \<open>x\<close> occurs in the new sequence exactly once; the candidate differs from the
  text read (the situation is Changed). Only equality with a whole line counts: the
  hypothesis is \<open>x \<notin> set L\<close>, whatever substrings the lines of \<open>L\<close> have. A forced run
  on a writable file writes the candidate and exits with 0 when the candidate can be
  encoded (and, unless quiet, the path can be printed); a candidate with a surrogate
  makes the write raise after the file was emptied.
\<close>

theorem ensure_line_appends_missing_line:
  assumes "(if path_exists f then safe_read path quiet f else Inr []) = Inr old"
    and "line \<notin> set (splitlines old)"
  shows "ensure_line path line force quiet idempotent_ok resp f =
           confirm_and_write path old (ensure_line_new old line) force quiet idempotent_ok resp f \<and>
         ensure_line_new old line = concat (map (\<lambda>l. l @ [LF]) (splitlines old @ [line])) \<and>
         count_list (splitlines old @ [line]) line = 1 \<and>
         ensure_line_new old line \<noteq> old \<and>
         (writable f \<and> encodable (ensure_line_new old line) \<and> (quiet \<or> encodable path) \<longrightarrow>
            ensure_line path line True quiet idempotent_ok resp f =
              \<lparr>printed = say quiet Stdout (UnifiedDiff old (ensure_line_new old line) path) @
                         say quiet Stdout (Updated path),
               ending = Exit EXIT_OK, target = f\<lparr>content := Some (ensure_line_new old line)\<rparr>,
               wrote = True\<rparr>) \<and>
         (writable f \<and> \<not> encodable (ensure_line_new old line) \<and> quiet \<longrightarrow>
            ensure_line path line True quiet idempotent_ok resp f =
              \<lparr>printed = [], ending = Raised UnicodeEncodeError,
               target = f\<lparr>content := Some []\<rparr>, wrote = False\<rparr>)"
proof -
  have old: "old = text_of f" using assms(1) by (rule read_or_empty_Inr)
  then have neq: "ensure_line_new old line \<noteq> old"
    by (simp add: ensure_line_new_neq text_of_no_CR)
  have run: "ensure_line path line fo quiet idempotent_ok resp f =
      confirm_and_write path old (ensure_line_new old line) fo quiet idempotent_ok resp f" for fo
    using assms by (simp add: ensure_line_def)
  have cnt: "count_list (splitlines old @ [line]) line = 1"
    using assms(2) by (simp add: count_list_0_iff)
  from neq have neq': "old \<noteq> ensure_line_new old line" by (rule not_sym)
  have ok: "writable f \<and> encodable (ensure_line_new old line) \<and> (quiet \<or> encodable path) \<longrightarrow>
      ensure_line path line True quiet idempotent_ok resp f =
        \<lparr>printed = say quiet Stdout (UnifiedDiff old (ensure_line_new old line) path) @
                   say quiet Stdout (Updated path),
         ending = Exit EXIT_OK, target = f\<lparr>content := Some (ensure_line_new old line)\<rparr>,
         wrote = True\<rparr>"
    using run [of True] confirm_and_write_forced [OF neq', of f path quiet idempotent_ok resp]
    by simp
  have bad: "writable f \<and> \<not> encodable (ensure_line_new old line) \<and> quiet \<longrightarrow>
      ensure_line path line True quiet idempotent_ok resp f =
        \<lparr>printed = [], ending = Raised UnicodeEncodeError, target = f\<lparr>content := Some []\<rparr>,
         wrote = False\<rparr>"
    using run [of True] confirm_and_write_unencodable [OF neq', of f path idempotent_ok resp]
    by auto
  from run [of force] neq cnt ok bad ensure_line_new_eq [of old line] show ?thesis by blast
qed

theorem ensure_line_appends_missing_line_witness:
  "(if path_exists (conf ''alphabet\<newline>'') then safe_read (py ''t.conf'') True (conf ''alphabet\<newline>'')
    else Inr []) = Inr (py ''alphabet\<newline>'') \<and>
   py ''alpha'' \<notin> set (splitlines (py ''alphabet\<newline>'')) \<and>
   contains (py ''alphabet'') (py ''alpha'') \<and>
   writable (conf ''alphabet\<newline>'') \<and>
   encodable (ensure_line_new (py ''alphabet\<newline>'') (py ''alpha'')) \<and>
   ensure_line (py ''t.conf'') (py ''alpha'') True True True None (conf ''alphabet\<newline>'') =
     \<lparr>printed = [], ending = Exit 0, target = conf ''alphabet\<newline>alpha\<newline>'', wrote = True\<rparr> \<and>
   [56448] \<notin> set (splitlines (py ''alphabet\<newline>'')) \<and>
   \<not> encodable (ensure_line_new (py ''alphabet\<newline>'') [56448]) \<and>
   ensure_line (py ''t.conf'') [56448] True True True None (conf ''alphabet\<newline>'') =
     \<lparr>printed = [], ending = Raised UnicodeEncodeError, target = conf [], wrote = False\<rparr>"
proof -
  let ?f = "conf ''alphabet\<newline>''"
  have r: "(if path_exists ?f then safe_read (py ''t.conf'') True ?f else Inr []) =
             Inr (py ''alphabet\<newline>'')"
    by (simp add: path_exists_def safe_read_def read_text_def conf_def py_def)
  have s: "splitlines (py ''alphabet\<newline>'') = [py ''alphabet'']"
    by (simp add: splitlines_def py_def is_linebreak_def)
  have n: "py ''alpha'' \<notin> set (splitlines (py ''alphabet\<newline>''))"
    unfolding s by (simp add: py_def)
  have n': "[56448] \<notin> set (splitlines (py ''alphabet\<newline>''))"
    unfolding s by (simp add: py_def)
  have c: "contains (py ''alphabet'') (py ''alpha'')"
    by (simp add: contains_def py_def)
  have w: "writable ?f" by (simp add: conf_def)
  have v: "ensure_line_new (py ''alphabet\<newline>'') (py ''alpha'') = py ''alphabet\<newline>alpha\<newline>''"
    unfolding ensure_line_new_def s by (simp add: py_def)
  have e: "encodable (ensure_line_new (py ''alphabet\<newline>'') (py ''alpha''))"
    unfolding v by (simp add: encodable_def surrogate_def py_def)
  have e': "\<not> encodable (ensure_line_new (py ''alphabet\<newline>'') [56448])"
    unfolding ensure_line_new_def s by (simp add: encodable_def surrogate_def py_def)
  from ensure_line_appends_missing_line [OF r n, of False True None] w e
  have "ensure_line (py ''t.conf'') (py ''alpha'') True True True None ?f =
      \<lparr>printed = say True Stdout (UnifiedDiff (py ''alphabet\<newline>'')
           (ensure_line_new (py ''alphabet\<newline>'') (py ''alpha'')) (py ''t.conf'')) @
         say True Stdout (Updated (py ''t.conf'')),
       ending = Exit EXIT_OK,
       target = ?f\<lparr>content := Some (ensure_line_new (py ''alphabet\<newline>'') (py ''alpha''))\<rparr>,
       wrote = True\<rparr>"
    by blast
  then have a1: "ensure_line (py ''t.conf'') (py ''alpha'') True True True None ?f =
     \<lparr>printed = [], ending = Exit 0, target = conf ''alphabet\<newline>alpha\<newline>'', wrote = True\<rparr>"
    by (simp add: v say_def conf_def)
  from ensure_line_appends_missing_line [OF r n', of False True None] w e'
  have "ensure_line (py ''t.conf'') [56448] True True True None ?f =
      \<lparr>printed = [], ending = Raised UnicodeEncodeError, target = ?f\<lparr>content := Some []\<rparr>,
       wrote = False\<rparr>"
    by blast
  then have a2: "ensure_line (py ''t.conf'') [56448] True True True None ?f =
     \<lparr>printed = [], ending = Raised UnicodeEncodeError, target = conf [], wrote = False\<rparr>"
    by (simp add: conf_def py_def)
  from r n n' c w e e' a1 a2 show ?thesis by blast
qed

section \<open>Line terminators on write\<close>

text \<open>
  C10: whatever separates the lines of the input (CR LF and CR are translated by the
  read, every other boundary is recognised by \<open>splitlines\<close>), no line of the text read
  holds a line boundary, and whenever Ensure-Line, Replace-Exact-Line or Replace-Pattern
  writes, the written content is the resulting lines, each one followed by LF: the lines
  the operation did not target are written back with LF as their terminator too.
\<close>

theorem line_operations_write_LF_terminators:
  "(\<forall>l\<in>set (splitlines (text_of f)). \<forall>c\<in>set l. \<not> is_linebreak c) \<and>
   (wrote (ensure_line path line force quiet idempotent_ok resp f) \<longrightarrow>
      content (target (ensure_line path line force quiet idempotent_ok resp f)) =
        Some (concat (map (\<lambda>l. l @ [LF]) (splitlines (text_of f) @ [line])))) \<and>
   (wrote (replace_line path old_line new_line force quiet idempotent_ok resp f) \<longrightarrow>
      content (target (replace_line path old_line new_line force quiet idempotent_ok resp f)) =
        Some (concat (map (\<lambda>l. (if l = old_line then new_line else l) @ [LF])
                (splitlines (text_of f))))) \<and>
   (wrote (replace_line_re path r force quiet idempotent_ok resp f) \<longrightarrow>
      content (target (replace_line_re path r force quiet idempotent_ok resp f)) =
        Some (concat (map (\<lambda>l. re_sub r l @ [LF]) (splitlines (text_of f)))))"
proof -
  have a: "\<forall>l\<in>set (splitlines (text_of f)). \<forall>c\<in>set l. \<not> is_linebreak c"
    using splitlines_nobreak by blast
  have b: "wrote (ensure_line path line force quiet idempotent_ok resp f) \<longrightarrow>
      content (target (ensure_line path line force quiet idempotent_ok resp f)) =
        Some (concat (map (\<lambda>l. l @ [LF]) (splitlines (text_of f) @ [line])))"
    using ensure_line_wrote [of path line force quiet idempotent_ok resp f]
    by (simp add: ensure_line_new_eq)
  have c: "wrote (replace_line path old_line new_line force quiet idempotent_ok resp f) \<longrightarrow>
      content (target (replace_line path old_line new_line force quiet idempotent_ok resp f)) =
        Some (concat (map (\<lambda>l. (if l = old_line then new_line else l) @ [LF])
                (splitlines (text_of f))))"
  proof
    assume "wrote (replace_line path old_line new_line force quiet idempotent_ok resp f)"
    from replace_line_wrote [OF this]
    have m: "old_line \<in> set (splitlines (text_of f))"
      and w: "content (target (replace_line path old_line new_line force quiet idempotent_ok resp f)) =
        Some (join [LF] (map (\<lambda>l. if l = old_line then new_line else l) (splitlines (text_of f))) @ [LF])"
      by simp_all
    from m have "map (\<lambda>l. if l = old_line then new_line else l) (splitlines (text_of f)) \<noteq> []"
      by auto
    from join_snoc [OF this, of "[LF]"] w
    show "content (target (replace_line path old_line new_line force quiet idempotent_ok resp f)) =
        Some (concat (map (\<lambda>l. (if l = old_line then new_line else l) @ [LF])
                (splitlines (text_of f))))"
      by (simp add: comp_def)
  qed
  have d: "wrote (replace_line_re path r force quiet idempotent_ok resp f) \<longrightarrow>
      content (target (replace_line_re path r force quiet idempotent_ok resp f)) =
        Some (concat (map (\<lambda>l. re_sub r l @ [LF]) (splitlines (text_of f))))"
  proof
    assume "wrote (replace_line_re path r force quiet idempotent_ok resp f)"
    from replace_line_re_wrote [OF this]
    have m: "splitlines (text_of f) \<noteq> []"
      and w: "content (target (replace_line_re path r force quiet idempotent_ok resp f)) =
        Some (join [LF] (map (re_sub r) (splitlines (text_of f))) @ [LF])"
      by simp_all
    from m have "map (re_sub r) (splitlines (text_of f)) \<noteq> []" by simp
    from join_snoc [OF this, of "[LF]"] w
    show "content (target (replace_line_re path r force quiet idempotent_ok resp f)) =
        Some (concat (map (\<lambda>l. re_sub r l @ [LF]) (splitlines (text_of f))))"
      by (simp add: comp_def)
  qed
  from a b c d show ?thesis by blast
qed

theorem line_operations_write_LF_terminators_witness:
  "splitlines (text_of mixed_terminators) = [py ''a'', py ''b'', py ''c''] \<and>
   wrote (ensure_line (py ''t.conf'') (py ''d'') True True True None mixed_terminators) \<and>
   content (target (ensure_line (py ''t.conf'') (py ''d'') True True True None mixed_terminators)) =
     Some (py ''a\<newline>b\<newline>c\<newline>d\<newline>'') \<and>
   wrote (replace_line (py ''t.conf'') (py ''b'') (py ''x'') True True True None mixed_terminators) \<and>
   content (target (replace_line (py ''t.conf'') (py ''b'') (py ''x'') True True True None
     mixed_terminators)) = Some (py ''a\<newline>x\<newline>c\<newline>'') \<and>
   wrote (replace_line_re (py ''t.conf'') re_c_by_z True True True None mixed_terminators) \<and>
   content (target (replace_line_re (py ''t.conf'') re_c_by_z True True True None
     mixed_terminators)) = Some (py ''a\<newline>b\<newline>z\<newline>'')"
proof -
  have s: "splitlines (text_of mixed_terminators) = [py ''a'', py ''b'', py ''c'']"
    by (simp add: text_of_def mixed_terminators_def splitlines_def py_def is_linebreak_def)
  have w1: "wrote (ensure_line (py ''t.conf'') (py ''d'') True True True None mixed_terminators)"
    by (simp add: eval_defs run_defs mixed_terminators_def splitlines_def py_def is_linebreak_def)
  have w2: "wrote (replace_line (py ''t.conf'') (py ''b'') (py ''x'') True True True None
      mixed_terminators)"
    by (simp add: eval_defs run_defs mixed_terminators_def splitlines_def py_def is_linebreak_def)
  have w3: "wrote (replace_line_re (py ''t.conf'') re_c_by_z True True True None mixed_terminators)"
    by (simp add: eval_defs run_defs mixed_terminators_def splitlines_def py_def is_linebreak_def
        re_c_by_z_def Let_def)
  show ?thesis
    using s w1 w2 w3
      line_operations_write_LF_terminators [of mixed_terminators "py ''t.conf''" "py ''d''" True
        True True None "py ''b''" "py ''x''" re_c_by_z]
    by (simp add: re_c_by_z_def py_def)
qed

section \<open>Replacing a marked block\<close>

text \<open>
  The file ends with the end marker, without a newline. The candidate is not the text
  before the span, trimmed, followed by the canonical block and the trimmed text after
  the span: a newline stands between the text before and the block, and a newline follows
  the block although nothing followed the span.
\<close>

theorem ensure_block_puts_newlines_around_block:
  "str_index (py ''x\<newline># S\<newline>q\<newline># E'') (py ''# S'') = Some 2 \<and>
   str_index (py ''x\<newline># S\<newline>q\<newline># E'') (py ''# E'') = Some 8 \<and>
   drop (8 + length (py ''# E'')) (py ''x\<newline># S\<newline>q\<newline># E'') = [] \<and>
   ensure_block_new (py ''x\<newline># S\<newline>q\<newline># E'') [py ''b''] (py ''# S'') (py ''# E'') =
     py ''x\<newline># S\<newline>b\<newline># E\<newline>'' \<and>
   rstrip (take 2 (py ''x\<newline># S\<newline>q\<newline># E'')) @ canonical_block [py ''b''] (py ''# S'') (py ''# E'') @
     lstrip (drop (8 + length (py ''# E'')) (py ''x\<newline># S\<newline>q\<newline># E'')) =
     py ''x# S\<newline>b\<newline># E'' \<and>
   ensure_block (py ''t.conf'') [py ''b''] (py ''# S'') (py ''# E'') True True True None
     (conf ''x\<newline># S\<newline>q\<newline># E'') =
     \<lparr>printed = [], ending = Exit 0, target = conf ''x\<newline># S\<newline>b\<newline># E\<newline>'', wrote = True\<rparr>"
  by (simp add: ensure_block_def run_defs conf_def block_eval)

text \<open>
  C5, as the code has it: for all content read in which both markers occur, the first
  occurrence of the start marker at \<open>i\<close> not after the first occurrence of the end
  marker at \<open>j\<close>, and something other than whitespace before position \<open>i\<close>, the
  candidate of Ensure-Block is the text before position \<open>i\<close> without its trailing
  whitespace, one newline, the canonical block (start marker, body lines, end marker,
  joined by newlines), one newline (also when nothing follows), and the text after
  position \<open>j + length marker_end\<close> without its leading whitespace. The span that is
  replaced starts where the start marker first occurs and ends where the first occurrence
  of the end marker ends; what is trimmed before and after it is whitespace only.
  Ensure-Block finds the block already correct when the candidate is the text read, and
  otherwise goes on to the confirmation with it; a run that writes has written the
  candidate, and a forced run on a writable file writes it and exits with 0 when it can
  be encoded (and, unless quiet, the path can be printed).
\<close>

theorem ensure_block_replaces_marked_span:
  assumes "(if path_exists f then safe_read path quiet f else Inr []) = Inr old"
    and "str_index old marker_start = Some i"
    and "str_index old marker_end = Some j"
    and "i \<le> j"
    and "rstrip (take i old) \<noteq> []"
  shows "\<exists>new.
           new = rstrip (take i old) @ [LF] @ canonical_block block_lines marker_start marker_end @
                 [LF] @ lstrip (drop (j + length marker_end) old) \<and>
           ensure_block_new old block_lines marker_start marker_end = new \<and>
           canonical_block block_lines marker_start marker_end =
             join [LF] ([marker_start] @ block_lines @ [marker_end]) \<and>
           old = take i old @ take (j + length marker_end - i) (drop i old) @
                 drop (j + length marker_end) old \<and>
           take (length marker_start) (drop i old) = marker_start \<and>
           (\<forall>k<i. \<not> prefix marker_start (drop k old)) \<and>
           take (length marker_end) (drop j old) = marker_end \<and>
           (\<forall>k<j. \<not> prefix marker_end (drop k old)) \<and>
           j + length marker_end \<le> length old \<and>
           (\<exists>ws. take i old = rstrip (take i old) @ ws \<and> (\<forall>c\<in>set ws. isspace c) \<and>
                 \<not> isspace (last (rstrip (take i old)))) \<and>
           (\<exists>ws. drop (j + length marker_end) old = ws @ lstrip (drop (j + length marker_end) old) \<and>
                 (\<forall>c\<in>set ws. isspace c) \<and>
                 (lstrip (drop (j + length marker_end) old) = [] \<or>
                  \<not> isspace (hd (lstrip (drop (j + length marker_end) old))))) \<and>
           ensure_block path block_lines marker_start marker_end force quiet idempotent_ok resp f =
             (if new = old then
                \<lparr>printed = say quiet Stdout (BlockAlreadyCorrect path),
                 ending = Exit (exit_ok_or_noop idempotent_ok), target = f, wrote = False\<rparr>
              else confirm_and_write path old new force quiet idempotent_ok resp f) \<and>
           (wrote (ensure_block path block_lines marker_start marker_end force quiet idempotent_ok
              resp f) \<longrightarrow>
              content (target (ensure_block path block_lines marker_start marker_end force quiet
                idempotent_ok resp f)) = Some new) \<and>
           (new \<noteq> old \<and> writable f \<and> encodable new \<and> (quiet \<or> encodable path) \<longrightarrow>
              ensure_block path block_lines marker_start marker_end True quiet idempotent_ok resp f =
                \<lparr>printed = say quiet Stdout (UnifiedDiff old new path) @
                           say quiet Stdout (Updated path),
                 ending = Exit EXIT_OK, target = f\<lparr>content := Some new\<rparr>, wrote = True\<rparr>)"
proof -
  let ?new = "rstrip (take i old) @ [LF] @ canonical_block block_lines marker_start marker_end @
           [LF] @ lstrip (drop (j + length marker_end) old)"
  have a: "ensure_block_new old block_lines marker_start marker_end = ?new"
    by (rule ensure_block_new_both [OF assms(2,3)])
  have b: "canonical_block block_lines marker_start marker_end =
           join [LF] ([marker_start] @ block_lines @ [marker_end])"
    by (simp add: canonical_block_def)
  have "take (j + length marker_end - i) (drop i old) @ drop (j + length marker_end) old = drop i old"
    using assms(4) by (metis add.commute append_take_drop_id drop_drop le_add_diff_inverse2 trans_le_add1)
  then have c: "old = take i old @ take (j + length marker_end - i) (drop i old) @
               drop (j + length marker_end) old"
    by simp
  from str_index_bound [OF assms(2)]
  have d: "take (length marker_start) (drop i old) = marker_start" by simp
  from assms(2) have e: "\<forall>k<i. \<not> prefix marker_start (drop k old)"
    by (simp add: str_index_Some_iff)
  from str_index_bound [OF assms(3)]
  have g: "take (length marker_end) (drop j old) = marker_end"
    and h: "j + length marker_end \<le> length old" by simp_all
  from assms(3) have k: "\<forall>k<j. \<not> prefix marker_end (drop k old)"
    by (simp add: str_index_Some_iff)
  from rstrip_decomp [of "take i old"] assms(5)
  have l: "\<exists>ws. take i old = rstrip (take i old) @ ws \<and> (\<forall>c\<in>set ws. isspace c) \<and>
                 \<not> isspace (last (rstrip (take i old)))"
    by blast
  note m = lstrip_decomp [of "drop (j + length marker_end) old"]
  have old: "old = text_of f" using assms(1) by (rule read_or_empty_Inr)
  have run: "ensure_block path block_lines marker_start marker_end fo quiet idempotent_ok resp f =
             (if ?new = old then
                \<lparr>printed = say quiet Stdout (BlockAlreadyCorrect path),
                 ending = Exit (exit_ok_or_noop idempotent_ok), target = f, wrote = False\<rparr>
              else confirm_and_write path old ?new fo quiet idempotent_ok resp f)" for fo
    using assms(1) a by (auto simp: ensure_block_def Let_def)
  have wr: "wrote (ensure_block path block_lines marker_start marker_end force quiet idempotent_ok
              resp f) \<longrightarrow>
              content (target (ensure_block path block_lines marker_start marker_end force quiet
                idempotent_ok resp f)) = Some ?new"
    using ensure_block_wrote [of path block_lines marker_start marker_end force quiet
        idempotent_ok resp f] a old by simp
  have ok: "?new \<noteq> old \<and> writable f \<and> encodable ?new \<and> (quiet \<or> encodable path) \<longrightarrow>
              ensure_block path block_lines marker_start marker_end True quiet idempotent_ok resp f =
                \<lparr>printed = say quiet Stdout (UnifiedDiff old ?new path) @
                           say quiet Stdout (Updated path),
                 ending = Exit EXIT_OK, target = f\<lparr>content := Some ?new\<rparr>, wrote = True\<rparr>"
  proof
    assume p: "?new \<noteq> old \<and> writable f \<and> encodable ?new \<and> (quiet \<or> encodable path)"
    then have q: "old \<noteq> ?new" and q': "encodable ?new" and q'': "writable f" by auto
    from confirm_and_write_forced [OF q q' q'', of path quiet idempotent_ok resp] p run [of True]
    show "ensure_block path block_lines marker_start marker_end True quiet idempotent_ok resp f =
                \<lparr>printed = say quiet Stdout (UnifiedDiff old ?new path) @
                           say quiet Stdout (Updated path),
                 ending = Exit EXIT_OK, target = f\<lparr>content := Some ?new\<rparr>, wrote = True\<rparr>"
      by simp
  qed
  from a b c d e g h k l m run [of force] wr ok show ?thesis by blast
qed

theorem ensure_block_replaces_marked_span_witness:
  "(if path_exists (conf ''before\<newline># BEGIN\<newline>A\<newline>B\<newline># END\<newline>after\<newline>'')
    then safe_read (py ''t.conf'') True (conf ''before\<newline># BEGIN\<newline>A\<newline>B\<newline># END\<newline>after\<newline>'')
    else Inr []) = Inr (py ''before\<newline># BEGIN\<newline>A\<newline>B\<newline># END\<newline>after\<newline>'') \<and>
   str_index (py ''before\<newline># BEGIN\<newline>A\<newline>B\<newline># END\<newline>after\<newline>'') (py ''# BEGIN'') = Some 7 \<and>
   str_index (py ''before\<newline># BEGIN\<newline>A\<newline>B\<newline># END\<newline>after\<newline>'') (py ''# END'') = Some 19 \<and>
   (7::nat) \<le> 19 \<and>
   rstrip (take 7 (py ''before\<newline># BEGIN\<newline>A\<newline>B\<newline># END\<newline>after\<newline>'')) = py ''before'' \<and>
   ensure_block_new (py ''before\<newline># BEGIN\<newline>A\<newline>B\<newline># END\<newline>after\<newline>'')
       [py ''A'', py ''CHANGED''] (py ''# BEGIN'') (py ''# END'') =
     py ''before\<newline># BEGIN\<newline>A\<newline>CHANGED\<newline># END\<newline>after\<newline>'' \<and>
   ensure_block (py ''t.conf'') [py ''A'', py ''CHANGED''] (py ''# BEGIN'') (py ''# END'')
       True True True None (conf ''before\<newline># BEGIN\<newline>A\<newline>B\<newline># END\<newline>after\<newline>'') =
     \<lparr>printed = [], ending = Exit 0,
      target = conf ''before\<newline># BEGIN\<newline>A\<newline>CHANGED\<newline># END\<newline>after\<newline>'', wrote = True\<rparr>"
proof -
  let ?o = "py ''before\<newline># BEGIN\<newline>A\<newline>B\<newline># END\<newline>after\<newline>''"
  let ?f = "conf ''before\<newline># BEGIN\<newline>A\<newline>B\<newline># END\<newline>after\<newline>''"
  let ?n = "py ''before\<newline># BEGIN\<newline>A\<newline>CHANGED\<newline># END\<newline>after\<newline>''"
  have r: "(if path_exists ?f then safe_read (py ''t.conf'') True ?f else Inr []) = Inr ?o"
    by (simp add: path_exists_def safe_read_def read_text_def conf_def py_def)
  have i: "str_index ?o (py ''# BEGIN'') = Some 7" by (simp add: py_def)
  have j: "str_index ?o (py ''# END'') = Some 19" by (simp add: py_def)
  have le: "(7::nat) \<le> 19" by simp
  have t: "rstrip (take 7 ?o) = py ''before''"
    by (simp add: rstrip_def py_def isspace_def)
  then have ne: "rstrip (take 7 ?o) \<noteq> []" by (simp add: py_def)
  have d: "lstrip (drop (19 + length (py ''# END'')) ?o) = py ''after\<newline>''"
    by (simp add: lstrip_def py_def isspace_def)
  have v: "py ''before'' @ [LF] @ canonical_block [py ''A'', py ''CHANGED''] (py ''# BEGIN'')
      (py ''# END'') @ [LF] @ py ''after\<newline>'' = ?n"
    by (simp add: canonical_block_def py_def)
  have w: "writable ?f" by (simp add: conf_def)
  have e: "encodable ?n" by (simp add: encodable_def surrogate_def py_def)
  have neq: "?n \<noteq> ?o" by (simp add: py_def)
  from ensure_block_replaces_marked_span [OF r i j le ne, of "[py ''A'', py ''CHANGED'']" False True None]
  have c: "ensure_block_new ?o [py ''A'', py ''CHANGED''] (py ''# BEGIN'') (py ''# END'') = ?n"
    and f: "?n \<noteq> ?o \<and> writable ?f \<and> encodable ?n \<and> (True \<or> encodable (py ''t.conf'')) \<longrightarrow>
      ensure_block (py ''t.conf'') [py ''A'', py ''CHANGED''] (py ''# BEGIN'') (py ''# END'')
        True True True None ?f =
        \<lparr>printed = say True Stdout (UnifiedDiff ?o ?n (py ''t.conf'')) @
                   say True Stdout (Updated (py ''t.conf'')),
         ending = Exit EXIT_OK, target = ?f\<lparr>content := Some ?n\<rparr>, wrote = True\<rparr>"
    unfolding t d v by blast+
  from f neq w e have "ensure_block (py ''t.conf'') [py ''A'', py ''CHANGED''] (py ''# BEGIN'')
      (py ''# END'') True True True None ?f =
      \<lparr>printed = [], ending = Exit 0, target = conf ''before\<newline># BEGIN\<newline>A\<newline>CHANGED\<newline># END\<newline>after\<newline>'',
       wrote = True\<rparr>"
    by (simp add: say_def conf_def)
  with r i j le t c show ?thesis by blast
qed

section \<open>The end of the written content\<close>

text \<open>
  Ensure-Block keeps a last line without a newline after the block, and
  Replace-Exact-Line keeps the blank lines at the end of the file: neither written
  content ends with exactly one newline.
\<close>

theorem write_without_single_trailing_newline:
  "wrote (ensure_block (py ''t.conf'') [py ''A'', py ''CHANGED''] (py ''# BEGIN'') (py ''# END'')
     True True True None (conf ''before\<newline># BEGIN\<newline>A\<newline>B\<newline># END\<newline>after'')) \<and>
   content (target (ensure_block (py ''t.conf'') [py ''A'', py ''CHANGED''] (py ''# BEGIN'')
     (py ''# END'') True True True None
     (conf ''before\<newline># BEGIN\<newline>A\<newline>B\<newline># END\<newline>after''))) =
     Some (py ''before\<newline># BEGIN\<newline>A\<newline>CHANGED\<newline># END\<newline>after'') \<and>
   \<not> ends_with_one_newline (py ''before\<newline># BEGIN\<newline>A\<newline>CHANGED\<newline># END\<newline>after'') \<and>
   wrote (replace_line (py ''t.conf'') (py ''a'') (py ''b'') True True True None
     (conf ''a\<newline>\<newline>\<newline>'')) \<and>
   content (target (replace_line (py ''t.conf'') (py ''a'') (py ''b'') True True True None
     (conf ''a\<newline>\<newline>\<newline>''))) = Some (py ''b\<newline>\<newline>\<newline>'') \<and>
   \<not> ends_with_one_newline (py ''b\<newline>\<newline>\<newline>'')"
  by (simp add: ensure_block_def replace_line_def run_defs conf_def splitlines_def
      is_linebreak_def block_eval newline_eval)

text \<open>
  C2, as the code has it: whenever Ensure-Line writes, the content ends with the line
  and one newline, which is the only trailing newline when the line is not empty and
  does not end with a newline itself. Whenever Replace-Exact-Line or Replace-Pattern
  writes, the content is the resulting lines joined by newlines and one more newline: it
  ends with exactly one newline unless the last resulting line is empty after another
  line, or ends with a newline itself. Whenever Ensure-Block writes, the content ends
  with the end marker and one newline when the block was appended or only whitespace
  followed the replaced block; when other text followed the replaced block, that text
  ends the content as it ended the input, and the content ends with exactly one newline
  exactly when the text read did.
\<close>

theorem written_content_trailing_newline:
  "(wrote (ensure_line path line force quiet idempotent_ok resp f) \<longrightarrow>
      (\<exists>pre. content (target (ensure_line path line force quiet idempotent_ok resp f)) =
               Some (pre @ line @ [LF]) \<and>
             (ends_with_one_newline (pre @ line @ [LF]) \<longleftrightarrow> \<not> ends_with_newline (pre @ line)) \<and>
             (line \<noteq> [] \<and> last line \<noteq> LF \<longrightarrow> ends_with_one_newline (pre @ line @ [LF])))) \<and>
   (wrote (replace_line path old_line new_line force quiet idempotent_ok resp f) \<longrightarrow>
      (\<exists>ls. ls = map (\<lambda>l. if l = old_line then new_line else l) (splitlines (text_of f)) \<and>
            ls \<noteq> [] \<and>
            content (target (replace_line path old_line new_line force quiet idempotent_ok resp f)) =
              Some (join [LF] ls @ [LF]) \<and>
            (ends_with_one_newline (join [LF] ls @ [LF]) \<longleftrightarrow>
               \<not> (if last ls = [] then 2 \<le> length ls else last (last ls) = LF)))) \<and>
   (wrote (replace_line_re path r force quiet idempotent_ok resp f) \<longrightarrow>
      (\<exists>ls. ls = map (re_sub r) (splitlines (text_of f)) \<and> ls \<noteq> [] \<and>
            content (target (replace_line_re path r force quiet idempotent_ok resp f)) =
              Some (join [LF] ls @ [LF]) \<and>
            (ends_with_one_newline (join [LF] ls @ [LF]) \<longleftrightarrow>
               \<not> (if last ls = [] then 2 \<le> length ls else last (last ls) = LF)))) \<and>
   (wrote (ensure_block path block_lines marker_start marker_end force quiet idempotent_ok resp f) \<longrightarrow>
      (\<exists>new. new = ensure_block_new (text_of f) block_lines marker_start marker_end \<and>
         content (target (ensure_block path block_lines marker_start marker_end force quiet
           idempotent_ok resp f)) = Some new \<and>
         (\<not> (contains (text_of f) marker_start \<and> contains (text_of f) marker_end) \<longrightarrow>
            (\<exists>pre. new = pre @ marker_end @ [LF])) \<and>
         (contains (text_of f) marker_start \<and> contains (text_of f) marker_end \<longrightarrow>
            (\<exists>pre after.
               after = lstrip (drop (the (str_index (text_of f) marker_end) + length marker_end)
                         (text_of f)) \<and>
               new = pre @ marker_end @ [LF] @ after \<and>
               (after \<noteq> [] \<longrightarrow>
                  (ends_with_one_newline new \<longleftrightarrow> ends_with_one_newline (text_of f)))))))"
proof (intro conjI impI)
  assume "wrote (ensure_line path line force quiet idempotent_ok resp f)"
  from ensure_line_wrote [OF this]
  have "content (target (ensure_line path line force quiet idempotent_ok resp f)) =
          Some (concat (map (\<lambda>l. l @ [LF]) (splitlines (text_of f))) @ line @ [LF])"
    by (simp add: ensure_line_new_eq)
  moreover have "ends_with_one_newline (pre @ line @ [LF]) \<longleftrightarrow> \<not> ends_with_newline (pre @ line)"
    for pre
    using ends_with_one_newline_snoc [of "pre @ line"] by simp
  moreover have "line \<noteq> [] \<and> last line \<noteq> LF \<longrightarrow> ends_with_one_newline (pre @ line @ [LF])" for pre
    using ends_with_one_newline_snoc [of "pre @ line"] by (simp add: ends_with_newline_def)
  ultimately show "\<exists>pre. content (target (ensure_line path line force quiet idempotent_ok resp f)) =
               Some (pre @ line @ [LF]) \<and>
             (ends_with_one_newline (pre @ line @ [LF]) \<longleftrightarrow> \<not> ends_with_newline (pre @ line)) \<and>
             (line \<noteq> [] \<and> last line \<noteq> LF \<longrightarrow> ends_with_one_newline (pre @ line @ [LF]))"
    by blast
next
  let ?ls = "map (\<lambda>l. if l = old_line then new_line else l) (splitlines (text_of f))"
  assume "wrote (replace_line path old_line new_line force quiet idempotent_ok resp f)"
  from replace_line_wrote [OF this]
  have m: "old_line \<in> set (splitlines (text_of f))"
    and w: "content (target (replace_line path old_line new_line force quiet idempotent_ok resp f)) =
        Some (join [LF] ?ls @ [LF])"
    by simp_all
  from m have ne: "?ls \<noteq> []" by auto
  have "ends_with_one_newline (join [LF] ?ls @ [LF]) \<longleftrightarrow>
               \<not> (if last ?ls = [] then 2 \<le> length ?ls else last (last ?ls) = LF)"
    using ends_with_newline_join [OF ne] by (simp only: ends_with_one_newline_snoc)
  with ne w show "\<exists>ls. ls = ?ls \<and> ls \<noteq> [] \<and>
            content (target (replace_line path old_line new_line force quiet idempotent_ok resp f)) =
              Some (join [LF] ls @ [LF]) \<and>
            (ends_with_one_newline (join [LF] ls @ [LF]) \<longleftrightarrow>
               \<not> (if last ls = [] then 2 \<le> length ls else last (last ls) = LF))"
    by blast
next
  let ?ls = "map (re_sub r) (splitlines (text_of f))"
  assume "wrote (replace_line_re path r force quiet idempotent_ok resp f)"
  from replace_line_re_wrote [OF this]
  have m: "splitlines (text_of f) \<noteq> []"
    and w: "content (target (replace_line_re path r force quiet idempotent_ok resp f)) =
        Some (join [LF] ?ls @ [LF])"
    by simp_all
  from m have ne: "?ls \<noteq> []" by simp
  have "ends_with_one_newline (join [LF] ?ls @ [LF]) \<longleftrightarrow>
               \<not> (if last ?ls = [] then 2 \<le> length ?ls else last (last ?ls) = LF)"
    using ends_with_newline_join [OF ne] by (simp only: ends_with_one_newline_snoc)
  with ne w show "\<exists>ls. ls = ?ls \<and> ls \<noteq> [] \<and>
            content (target (replace_line_re path r force quiet idempotent_ok resp f)) =
              Some (join [LF] ls @ [LF]) \<and>
            (ends_with_one_newline (join [LF] ls @ [LF]) \<longleftrightarrow>
               \<not> (if last ls = [] then 2 \<le> length ls else last (last ls) = LF))"
    by blast
next
  let ?old = "text_of f"
  let ?new = "ensure_block_new ?old block_lines marker_start marker_end"
  let ?after = "lstrip (drop (the (str_index ?old marker_end) + length marker_end) ?old)"
  assume "wrote (ensure_block path block_lines marker_start marker_end force quiet idempotent_ok resp f)"
  from ensure_block_wrote [OF this]
  have w: "content (target (ensure_block path block_lines marker_start marker_end force quiet
           idempotent_ok resp f)) = Some ?new" .
  note sh = ensure_block_new_shape [of ?old marker_start marker_end block_lines]
  have a: "\<not> (contains ?old marker_start \<and> contains ?old marker_end) \<longrightarrow>
            (\<exists>pre. ?new = pre @ marker_end @ [LF])"
    using sh by blast
  have b: "contains ?old marker_start \<and> contains ?old marker_end \<longrightarrow>
            (\<exists>pre after. after = ?after \<and> ?new = pre @ marker_end @ [LF] @ after \<and>
               (after \<noteq> [] \<longrightarrow> (ends_with_one_newline ?new \<longleftrightarrow> ends_with_one_newline ?old)))"
  proof
    assume "contains ?old marker_start \<and> contains ?old marker_end"
    with sh obtain pre where p: "?new = pre @ marker_end @ [LF] @ ?after" by blast
    then have p': "?new = (pre @ marker_end) @ [LF] @ ?after" by simp
    have "?after \<noteq> [] \<longrightarrow> (ends_with_one_newline ?new \<longleftrightarrow> ends_with_one_newline ?old)"
      using ends_like_suffix [OF p'] by blast
    with p show "\<exists>pre after. after = ?after \<and> ?new = pre @ marker_end @ [LF] @ after \<and>
               (after \<noteq> [] \<longrightarrow> (ends_with_one_newline ?new \<longleftrightarrow> ends_with_one_newline ?old))"
      by blast
  qed
  from w a b show "\<exists>new. new = ?new \<and>
         content (target (ensure_block path block_lines marker_start marker_end force quiet
           idempotent_ok resp f)) = Some new \<and>
         (\<not> (contains ?old marker_start \<and> contains ?old marker_end) \<longrightarrow>
            (\<exists>pre. new = pre @ marker_end @ [LF])) \<and>
         (contains ?old marker_start \<and> contains ?old marker_end \<longrightarrow>
            (\<exists>pre after. after = ?after \<and> new = pre @ marker_end @ [LF] @ after \<and>
               (after \<noteq> [] \<longrightarrow> (ends_with_one_newline new \<longleftrightarrow> ends_with_one_newline ?old))))"
    by blast
qed

theorem written_content_trailing_newline_witness:
  "wrote (ensure_line (py ''t.conf'') (py ''d'') True True True None (conf ''c\<newline>'')) \<and>
   content (target (ensure_line (py ''t.conf'') (py ''d'') True True True None (conf ''c\<newline>''))) =
     Some (py ''c\<newline>d\<newline>'') \<and>
   ends_with_one_newline (py ''c\<newline>d\<newline>'') \<and>
   wrote (replace_line (py ''t.conf'') (py ''c'') (py ''z'') True True True None (conf ''c\<newline>'')) \<and>
   wrote (replace_line_re (py ''t.conf'') re_c_by_z True True True None (conf ''c\<newline>'')) \<and>
   wrote (ensure_block (py ''t.conf'') [py ''b''] (py ''# S'') (py ''# E'') True True True None
     (conf ''c\<newline>'')) \<and>
   content (target (ensure_block (py ''t.conf'') [py ''b''] (py ''# S'') (py ''# E'') True True
     True None (conf ''c\<newline>''))) = Some (py ''c\<newline># S\<newline>b\<newline># E\<newline>'') \<and>
   wrote (ensure_block (py ''t.conf'') [py ''b''] (py ''# S'') (py ''# E'') True True True None
     (conf ''x\<newline># S\<newline>q\<newline># E\<newline>rest'')) \<and>
   contains (text_of (conf ''x\<newline># S\<newline>q\<newline># E\<newline>rest'')) (py ''# S'') \<and>
   contains (text_of (conf ''x\<newline># S\<newline>q\<newline># E\<newline>rest'')) (py ''# E'') \<and>
   content (target (ensure_block (py ''t.conf'') [py ''b''] (py ''# S'') (py ''# E'') True True
     True None (conf ''x\<newline># S\<newline>q\<newline># E\<newline>rest''))) =
     Some (py ''x\<newline># S\<newline>b\<newline># E\<newline>rest'') \<and>
   \<not> ends_with_one_newline (text_of (conf ''x\<newline># S\<newline>q\<newline># E\<newline>rest'')) \<and>
   \<not> ends_with_one_newline (py ''x\<newline># S\<newline>b\<newline># E\<newline>rest'')"
proof -
  let ?f = "conf ''c\<newline>''"
  let ?g = "conf ''x\<newline># S\<newline>q\<newline># E\<newline>rest''"
  note ev = ensure_line_def ensure_line_new_def replace_line_def replace_line_re_def
    ensure_block_def run_defs conf_def splitlines_def is_linebreak_def block_eval newline_eval
    re_c_by_z_def text_of_def
  have w1: "wrote (ensure_line (py ''t.conf'') (py ''d'') True True True None ?f)"
    by (simp add: ev)
  have w2: "wrote (replace_line (py ''t.conf'') (py ''c'') (py ''z'') True True True None ?f)"
    by (simp add: ev)
  have w3: "wrote (replace_line_re (py ''t.conf'') re_c_by_z True True True None ?f)"
    by (simp add: ev)
  have w4: "wrote (ensure_block (py ''t.conf'') [py ''b''] (py ''# S'') (py ''# E'') True True True
      None ?f)"
    by (simp add: ev)
  have w5: "wrote (ensure_block (py ''t.conf'') [py ''b''] (py ''# S'') (py ''# E'') True True True
      None ?g)"
    by (simp add: ev)
  have c5: "contains (text_of ?g) (py ''# S'') \<and> contains (text_of ?g) (py ''# E'')"
    by (simp add: ev)
  note T1 = written_content_trailing_newline [of "py ''t.conf''" "py ''d''" True True True None ?f
      "py ''c''" "py ''z''" re_c_by_z "[py ''b'']" "py ''# S''" "py ''# E''"]
  note T2 = written_content_trailing_newline [of "py ''t.conf''" "py ''d''" True True True None ?g
      "py ''c''" "py ''z''" re_c_by_z "[py ''b'']" "py ''# S''" "py ''# E''"]
  from T1 w1 have e1: "\<exists>pre. content (target (ensure_line (py ''t.conf'') (py ''d'') True True True
      None ?f)) = Some (pre @ py ''d'' @ [LF])"
    by blast
  from T1 w4 have e4: "content (target (ensure_block (py ''t.conf'') [py ''b''] (py ''# S'')
      (py ''# E'') True True True None ?f)) =
      Some (ensure_block_new (text_of ?f) [py ''b''] (py ''# S'') (py ''# E''))"
    by blast
  from T2 w5 have e5: "content (target (ensure_block (py ''t.conf'') [py ''b''] (py ''# S'')
      (py ''# E'') True True True None ?g)) =
      Some (ensure_block_new (text_of ?g) [py ''b''] (py ''# S'') (py ''# E''))"
    by blast
  have n4: "ensure_block_new (text_of ?f) [py ''b''] (py ''# S'') (py ''# E'') =
      py ''c\<newline># S\<newline>b\<newline># E\<newline>''"
    by (simp add: ev)
  have n5: "ensure_block_new (text_of ?g) [py ''b''] (py ''# S'') (py ''# E'') =
      py ''x\<newline># S\<newline>b\<newline># E\<newline>rest''"
    by (simp add: ev)
  have c1: "content (target (ensure_line (py ''t.conf'') (py ''d'') True True True None ?f)) =
     Some (py ''c\<newline>d\<newline>'')"
    by (simp add: ev)
  have o1: "ends_with_one_newline (py ''c\<newline>d\<newline>'')" by (simp add: ev)
  have o5: "\<not> ends_with_one_newline (text_of ?g) \<and>
     \<not> ends_with_one_newline (py ''x\<newline># S\<newline>b\<newline># E\<newline>rest'')"
    by (simp add: ev)
  from e1 w1 w2 w3 w4 w5 c5 c1 o1 o5 e4 e5 n4 n5 show ?thesis by simp
qed

section \<open>Running Ensure-Block twice\<close>

text \<open>
  The end marker also stands on a line before the start marker: the first run puts the
  block between the two first occurrences and keeps everything after the first end
  marker, and the second run does the same to what the first has written, so that the
  file grows with every run.
\<close>

theorem ensure_block_second_run_changes:
  "ensure_block (py ''t.conf'') [py ''A''] (py ''# BEGIN'') (py ''# END'') True True True None
     (conf ''# END\<newline># BEGIN\<newline>A\<newline># END\<newline>'') =
     \<lparr>printed = [], ending = Exit 0,
      target = conf ''# END\<newline># BEGIN\<newline>A\<newline># END\<newline># BEGIN\<newline>A\<newline># END\<newline>'',
      wrote = True\<rparr> \<and>
   ensure_block_new (py ''# END\<newline># BEGIN\<newline>A\<newline># END\<newline># BEGIN\<newline>A\<newline># END\<newline>'')
     [py ''A''] (py ''# BEGIN'') (py ''# END'') \<noteq>
     py ''# END\<newline># BEGIN\<newline>A\<newline># END\<newline># BEGIN\<newline>A\<newline># END\<newline>'' \<and>
   ensure_block (py ''t.conf'') [py ''A''] (py ''# BEGIN'') (py ''# END'') True True True None
     (conf ''# END\<newline># BEGIN\<newline>A\<newline># END\<newline># BEGIN\<newline>A\<newline># END\<newline>'') =
     \<lparr>printed = [], ending = Exit 0,
      target = conf ''# END\<newline># BEGIN\<newline>A\<newline># END\<newline># BEGIN\<newline>A\<newline># END\<newline># BEGIN\<newline>A\<newline># END\<newline>'',
      wrote = True\<rparr>"
  by (simp add: ensure_block_def run_defs conf_def block_eval)

text \<open>
  On an empty file the first run writes the block alone; the second run finds the markers
  there and puts a newline before the block, where the branch that appends the block
  leaves the separator out when nothing precedes it.
\<close>

lemma ensure_block_after_empty_file:
  "ensure_block (py ''t.conf'') [py ''one'', py ''two''] (py ''# ST'') (py ''# EN'') True True True
     None (conf '''') =
     \<lparr>printed = [], ending = Exit 0, target = conf ''# ST\<newline>one\<newline>two\<newline># EN\<newline>'',
      wrote = True\<rparr> \<and>
   ensure_block (py ''t.conf'') [py ''one'', py ''two''] (py ''# ST'') (py ''# EN'') True True True
     None (conf ''# ST\<newline>one\<newline>two\<newline># EN\<newline>'') =
     \<lparr>printed = [], ending = Exit 0,
      target = conf ''\<newline># ST\<newline>one\<newline>two\<newline># EN\<newline>'', wrote = True\<rparr>"
  by (simp add: ensure_block_def run_defs conf_def block_eval)

text \<open>
  C3, as the code has it: let the markers be non-empty and hold no LF and no CR, let the
  end marker occur neither in the start marker nor in a body line, and let no body line
  hold a CR. Let the text read from the file either hold neither marker and be
  more than whitespace, or hold both markers, the first start marker not after the first
  end marker. Then, after an application that writes content \<open>N\<close>, the candidate of
  Ensure-Block with the same parameters on \<open>N\<close> is \<open>N\<close>, and every further run on the
  written file finds the block already correct: it writes nothing and exits with 0 or 4
  according to \<open>idempotent_ok\<close>.
\<close>

theorem ensure_block_idempotent:
  assumes "marker_start \<noteq> []" and "LF \<notin> set marker_start"
    and "marker_end \<noteq> []" and "LF \<notin> set marker_end"
    and "\<not> contains marker_start marker_end"
    and "\<forall>l\<in>set block_lines. \<not> contains l marker_end"
    and "CR \<notin> set marker_start" and "CR \<notin> set marker_end"
    and "\<forall>l\<in>set block_lines. CR \<notin> set l"
    and "(\<not> contains (text_of f) marker_start \<and> \<not> contains (text_of f) marker_end \<and>
          rstrip (text_of f) \<noteq> []) \<or>
         (\<exists>i j. str_index (text_of f) marker_start = Some i \<and>
                str_index (text_of f) marker_end = Some j \<and> i \<le> j)"
    and "wrote (ensure_block path block_lines marker_start marker_end force quiet idempotent_ok resp f)"
  shows "\<exists>n. n = ensure_block_new (text_of f) block_lines marker_start marker_end \<and>
           target (ensure_block path block_lines marker_start marker_end force quiet idempotent_ok
             resp f) = f\<lparr>content := Some n\<rparr> \<and>
           ensure_block_new n block_lines marker_start marker_end = n \<and>
           ensure_block path block_lines marker_start marker_end force' quiet' idempotent_ok' resp'
               (f\<lparr>content := Some n\<rparr>) =
             \<lparr>printed = say quiet' Stdout (BlockAlreadyCorrect path),
              ending = Exit (exit_ok_or_noop idempotent_ok'), target = f\<lparr>content := Some n\<rparr>,
              wrote = False\<rparr>"
proof -
  let ?n = "ensure_block_new (text_of f) block_lines marker_start marker_end"
  have t: "target (ensure_block path block_lines marker_start marker_end force quiet idempotent_ok
             resp f) = f\<lparr>content := Some ?n\<rparr>"
    by (rule ensure_block_wrote_target [OF assms(11)])
  have st: "ensure_block_new ?n block_lines marker_start marker_end = ?n"
    by (rule ensure_block_new_stable [OF assms(1-6) assms(10)])
  have cr: "CR \<notin> set ?n"
    by (rule ensure_block_new_no_CR [OF text_of_no_CR assms(7-9)])
  have rd: "readable f"
    by (rule ensure_block_wrote_readable [OF assms(11) first_run_reads_file [OF assms(1,10)]])
  have "ensure_block path block_lines marker_start marker_end force' quiet' idempotent_ok' resp'
               (f\<lparr>content := Some ?n\<rparr>) =
             \<lparr>printed = say quiet' Stdout (BlockAlreadyCorrect path),
              ending = Exit (exit_ok_or_noop idempotent_ok'), target = f\<lparr>content := Some ?n\<rparr>,
              wrote = False\<rparr>"
    by (rule ensure_block_already_correct [OF _ _ cr st]) (simp_all add: rd)
  with t st show ?thesis by blast
qed

theorem ensure_block_idempotent_witness:
  "wrote (ensure_block (py ''t.conf'') [py ''SET'', py ''UP''] (py ''# START'') (py ''# STOP'')
     True True True None (conf ''AAA\<newline>BBB\<newline>CCC\<newline>'')) \<and>
   ensure_block_new (text_of (conf ''AAA\<newline>BBB\<newline>CCC\<newline>'')) [py ''SET'', py ''UP'']
     (py ''# START'') (py ''# STOP'') =
     py ''AAA\<newline>BBB\<newline>CCC\<newline># START\<newline>SET\<newline>UP\<newline># STOP\<newline>'' \<and>
   ensure_block (py ''t.conf'') [py ''SET'', py ''UP''] (py ''# START'') (py ''# STOP'')
     False True False None
     (conf ''AAA\<newline>BBB\<newline>CCC\<newline># START\<newline>SET\<newline>UP\<newline># STOP\<newline>'') =
     \<lparr>printed = [], ending = Exit 4,
      target = conf ''AAA\<newline>BBB\<newline>CCC\<newline># START\<newline>SET\<newline>UP\<newline># STOP\<newline>'',
      wrote = False\<rparr> \<and>
   wrote (ensure_block (py ''t.conf'') [py ''A'', py ''CHANGED''] (py ''# BEGIN'') (py ''# END'')
     True True True None (conf ''before\<newline># BEGIN\<newline>A\<newline>B\<newline># END\<newline>after\<newline>'')) \<and>
   ensure_block_new (text_of (conf ''before\<newline># BEGIN\<newline>A\<newline>B\<newline># END\<newline>after\<newline>''))
     [py ''A'', py ''CHANGED''] (py ''# BEGIN'') (py ''# END'') =
     py ''before\<newline># BEGIN\<newline>A\<newline>CHANGED\<newline># END\<newline>after\<newline>'' \<and>
   ensure_block (py ''t.conf'') [py ''A'', py ''CHANGED''] (py ''# BEGIN'') (py ''# END'')
     False True True None
     (conf ''before\<newline># BEGIN\<newline>A\<newline>CHANGED\<newline># END\<newline>after\<newline>'') =
     \<lparr>printed = [], ending = Exit 0,
      target = conf ''before\<newline># BEGIN\<newline>A\<newline>CHANGED\<newline># END\<newline>after\<newline>'',
      wrote = False\<rparr>"
proof -
  let ?f = "conf ''AAA\<newline>BBB\<newline>CCC\<newline>''"
  let ?g = "conf ''before\<newline># BEGIN\<newline>A\<newline>B\<newline># END\<newline>after\<newline>''"
  note ev = ensure_block_def run_defs conf_def block_eval text_of_def
  have w1: "wrote (ensure_block (py ''t.conf'') [py ''SET'', py ''UP''] (py ''# START'')
      (py ''# STOP'') True True True None ?f)"
    by (simp add: ev)
  have w2: "wrote (ensure_block (py ''t.conf'') [py ''A'', py ''CHANGED''] (py ''# BEGIN'')
      (py ''# END'') True True True None ?g)"
    by (simp add: ev)
  have n1: "ensure_block_new (text_of ?f) [py ''SET'', py ''UP''] (py ''# START'') (py ''# STOP'') =
      py ''AAA\<newline>BBB\<newline>CCC\<newline># START\<newline>SET\<newline>UP\<newline># STOP\<newline>''"
    by (simp add: ev)
  have n2: "ensure_block_new (text_of ?g) [py ''A'', py ''CHANGED''] (py ''# BEGIN'') (py ''# END'') =
      py ''before\<newline># BEGIN\<newline>A\<newline>CHANGED\<newline># END\<newline>after\<newline>''"
    by (simp add: ev)
  have h1: "(\<not> contains (text_of ?f) (py ''# START'') \<and> \<not> contains (text_of ?f) (py ''# STOP'') \<and>
          rstrip (text_of ?f) \<noteq> []) \<or>
         (\<exists>i j. str_index (text_of ?f) (py ''# START'') = Some i \<and>
                str_index (text_of ?f) (py ''# STOP'') = Some j \<and> i \<le> j)"
    by (simp add: ev)
  have i2: "str_index (text_of ?g) (py ''# BEGIN'') = Some 7 \<and>
            str_index (text_of ?g) (py ''# END'') = Some 19 \<and> (7::nat) \<le> 19"
    by (simp add: ev)
  then have h2: "(\<not> contains (text_of ?g) (py ''# BEGIN'') \<and> \<not> contains (text_of ?g) (py ''# END'') \<and>
          rstrip (text_of ?g) \<noteq> []) \<or>
         (\<exists>i j. str_index (text_of ?g) (py ''# BEGIN'') = Some i \<and>
                str_index (text_of ?g) (py ''# END'') = Some j \<and> i \<le> j)"
    by blast
  have t1: "\<exists>n. n = ensure_block_new (text_of ?f) [py ''SET'', py ''UP''] (py ''# START'') (py ''# STOP'') \<and>
      target (ensure_block (py ''t.conf'') [py ''SET'', py ''UP''] (py ''# START'') (py ''# STOP'')
        True True True None ?f) = ?f\<lparr>content := Some n\<rparr> \<and>
      ensure_block_new n [py ''SET'', py ''UP''] (py ''# START'') (py ''# STOP'') = n \<and>
      ensure_block (py ''t.conf'') [py ''SET'', py ''UP''] (py ''# START'') (py ''# STOP'')
        False True False None (?f\<lparr>content := Some n\<rparr>) =
        \<lparr>printed = say True Stdout (BlockAlreadyCorrect (py ''t.conf'')),
         ending = Exit (exit_ok_or_noop False), target = ?f\<lparr>content := Some n\<rparr>, wrote = False\<rparr>"
    by (rule ensure_block_idempotent [OF _ _ _ _ _ _ _ _ _ h1 w1])
       (simp_all add: py_def contains_def conf_def)
  have t2: "\<exists>n. n = ensure_block_new (text_of ?g) [py ''A'', py ''CHANGED''] (py ''# BEGIN'') (py ''# END'') \<and>
      target (ensure_block (py ''t.conf'') [py ''A'', py ''CHANGED''] (py ''# BEGIN'') (py ''# END'')
        True True True None ?g) = ?g\<lparr>content := Some n\<rparr> \<and>
      ensure_block_new n [py ''A'', py ''CHANGED''] (py ''# BEGIN'') (py ''# END'') = n \<and>
      ensure_block (py ''t.conf'') [py ''A'', py ''CHANGED''] (py ''# BEGIN'') (py ''# END'')
        False True True None (?g\<lparr>content := Some n\<rparr>) =
        \<lparr>printed = say True Stdout (BlockAlreadyCorrect (py ''t.conf'')),
         ending = Exit (exit_ok_or_noop True), target = ?g\<lparr>content := Some n\<rparr>, wrote = False\<rparr>"
    by (rule ensure_block_idempotent [OF _ _ _ _ _ _ _ _ _ h2 w2])
       (simp_all add: py_def contains_def conf_def)
  from t1 t2 w1 w2 n1 n2 show ?thesis
    by (simp add: say_def exit_ok_or_noop_def conf_def)
qed

end
